theory Spec2Isabelle
  imports Main
begin

section \<open>Syntax kinds, errors and parse nodes\<close>

text \<open>
  \<open>ts.SyntaxKind\<close> is the compiler's enumeration of node kinds; its declaration is not
  among the sources. The members the sources and the spec name are constructors of their
  own; \<open>OtherKind name\<close> stands for every further member, given by its name.
  \<open>getSyntaxKindName\<close> (of \<open>utils\<close>, not among the sources either) gives the name of
  a member.
\<close>

datatype SyntaxKind =
    SourceFile | ModuleDeclaration | FunctionDeclaration | ClassDeclaration
  | EnumDeclaration | InterfaceDeclaration | TypeAliasDeclaration | VariableStatement
  | IfStatement | Block | OtherKind string

fun getSyntaxKindName :: "SyntaxKind \<Rightarrow> string" where
  "getSyntaxKindName SourceFile = ''SourceFile''"
| "getSyntaxKindName ModuleDeclaration = ''ModuleDeclaration''"
| "getSyntaxKindName FunctionDeclaration = ''FunctionDeclaration''"
| "getSyntaxKindName ClassDeclaration = ''ClassDeclaration''"
| "getSyntaxKindName EnumDeclaration = ''EnumDeclaration''"
| "getSyntaxKindName InterfaceDeclaration = ''InterfaceDeclaration''"
| "getSyntaxKindName TypeAliasDeclaration = ''TypeAliasDeclaration''"
| "getSyntaxKindName VariableStatement = ''VariableStatement''"
| "getSyntaxKindName IfStatement = ''IfStatement''"
| "getSyntaxKindName Block = ''Block''"
| "getSyntaxKindName (OtherKind name) = name"

text \<open>
  Every \<open>throw\<close> of the sources is a value: \<open>InvalidOperationError\<close>,
  \<open>NotImplementedError\<close> and the plain \<open>Error\<close> carry their message; \<open>TypeError\<close> is
  what JavaScript raises when a property of \<open>undefined\<close> is read.
\<close>

datatype error =
    InvalidOperationError string
  | Error string
  | TypeError
  | NotImplementedError string

text \<open>
  An underlying parse node (\<open>ts.Node\<close>): immutable, with the identity \<open>nid\<close> of the
  object, its kind and its ordered children.
\<close>

datatype tsnode = TsNode (nid: nat) (kind: SyntaxKind) (children: "tsnode list")

section \<open>Wrapper nodes and the node registry\<close>

text \<open>
  Modelled from the spec: the class \<open>Node\<close> is not among the sources. A wrapper node
  (spec 3) has the identity \<open>ident\<close> of the long-lived object, the parse node it is
  bound to at the moment, and its wrapper children. Wrappers are
  materialized lazily: \<open>materialized\<close> lists, for the children of the underlying node in
  document order, the wrapper of the child where the application navigated to it and
  \<open>None\<close> where no wrapper was ever made (a list that ends early says the same of the
  children it does not reach). The wrapper tree is a tree (a wrapper has one parent), so a
  wrapper subtree is a value, and a call that mutates it in place returns the subtree as
  it left it. The identity of the object at each position is part of the value: a wrapper
  replaced by a new object would show as another \<open>ident\<close> there.
\<close>

datatype wnode =
  WrapperNode (ident: nat) (underlying: tsnode) (materialized: "wnode option list")

text \<open>
  The calls the handler makes on its two collaborators: \<open>helper.handleForValues\<close> with
  the identity of the current child (a node of the old tree) and of the new child it was
  given (\<open>None\<close> for \<open>undefined\<close>), and \<open>compilerFactory.replaceCompilerNode\<close> with the identity of the
  wrapper and of the new node.
\<close>

datatype call = HandleForValues nat "nat option" | ReplaceCompilerNode nat nat

text \<open>
  The compiler factory: the registry (spec 3) from the identity of a parse node to the
  identity of its wrapper. \<open>calls\<close> is not state of the program: it is the journal of
  the calls above in the order they were made, kept to state what was called, and in
  which order.
\<close>

record factory =
  registry :: "nat \<rightharpoonup> nat"
  calls :: "call list"

text \<open>
  A call returns the error it raised, if any, the factory and the wrapper subtree as the
  call left them. The state is returned on an error too: a \<open>throw\<close> undoes nothing.
\<close>

type_synonym outcome = "error option \<times> factory \<times> wnode"

text \<open>
  Modelled from the spec: \<open>Node.getKind\<close> and \<open>Node.getKindName\<close> are not among the
  sources. \<open>kind()\<close> returns the kind of the underlying node the wrapper is bound to
  (4.4), and the name is the name of that kind.
\<close>

definition getKind :: "wnode \<Rightarrow> SyntaxKind" where
  "getKind w = kind (underlying w)"

definition getKindName :: "wnode \<Rightarrow> string" where
  "getKindName w = getSyntaxKindName (getKind w)"

text \<open>
  Modelled from the spec: \<open>Node._hasWrappedChildren\<close> is not among the sources; the
  handler's contract (4.2) reads it as "the wrapper node has any materialized children".
\<close>

definition hasWrappedChildren :: "wnode \<Rightarrow> bool" where
  "hasWrappedChildren w = list_ex (\<lambda>s. s \<noteq> None) (materialized w)"

text \<open>
  Modelled from the spec: \<open>CompilerFactory.replaceCompilerNode\<close> is not among the
  sources. It is the registry's \<open>rebind\<close> (4.1): it replaces the wrapper's bound
  underlying node, removes the old mapping and inserts the new one; a wrapper whose kind
  differs from the new node's fails with an \<open>InvalidOperationError\<close> (the spec gives no
  message for it).
\<close>

definition replaceCompilerNode :: "factory \<Rightarrow> wnode \<Rightarrow> tsnode \<Rightarrow> outcome" where
  "replaceCompilerNode f currentNode newNode =
     (let f1 = f\<lparr>calls := calls f @ [ReplaceCompilerNode (ident currentNode) (nid newNode)]\<rparr> in
      if getKind currentNode \<noteq> kind newNode then (Some (InvalidOperationError []), f1, currentNode)
      else (None,
            f1\<lparr>registry := ((registry f1)(nid (underlying currentNode) := None))
                                (nid newNode \<mapsto> ident currentNode)\<rparr>,
            WrapperNode (ident currentNode) newNode (materialized currentNode)))"

text \<open>
  Modelled from the spec: \<open>NodeHandlerHelper.getChildrenFast\<close> is not among the
  sources. The helper (4.3) obtains the current node's children and the new underlying
  node's children, both in document order, to go through them side by side, one new child
  for each current child. The current children are all the children of the node the
  wrapper is bound to, tracked or not: an untracked child has no wrapper, is not paired
  with anything and is not instantiated (4.3, edge-case policy), but it holds its place,
  so that the wrapper of a tracked child meets the new child at the same position. This
  is the reading under which the end-to-end scenario (8) and identity preservation (6)
  hold for wrappers materialized lazily, and the one the call in \<open>handleChildren\<close>
  has: it hands each current child on to \<open>handleForValues\<close>, where a child without a
  wrapper is passed over. A current child is the child node with the wrapper the factory
  has for it, if any; \<open>pairWrappers\<close> puts the two together.
\<close>

type_synonym child = "tsnode \<times> wnode option"

fun pairWrappers :: "tsnode list \<Rightarrow> wnode option list \<Rightarrow> child list" where
  "pairWrappers [] ms = []"
| "pairWrappers (c # cs) [] = (c, None) # pairWrappers cs []"
| "pairWrappers (c # cs) (m # ms) = (c, m) # pairWrappers cs ms"

definition getChildrenFast :: "wnode \<Rightarrow> tsnode \<Rightarrow> child list \<times> tsnode list" where
  "getChildrenFast currentNode newNode =
     (pairWrappers (children (underlying currentNode)) (materialized currentNode),
      children newNode)"

text \<open>
  Modelled from the spec: \<open>NodeHandlerHelper.handleForValues\<close> is not among the
  sources. It is the dispatch point (4.3): nothing is done for a child that has no
  wrapper; the wrapper of a tracked child and the new child go back into the strategy it
  was given, here always the straight handler, which passes itself. The result is the
  child's wrapper as the strategy left it.
\<close>

definition handleForValues ::
  "(factory \<Rightarrow> wnode \<Rightarrow> tsnode option \<Rightarrow> outcome) \<Rightarrow> factory \<Rightarrow> child \<Rightarrow> tsnode option
    \<Rightarrow> error option \<times> factory \<times> wnode option" where
  "handleForValues handler f currentNodeChild newNode =
     (let f1 = f\<lparr>calls := calls f @
                 [HandleForValues (nid (fst currentNodeChild)) (map_option nid newNode)]\<rparr> in
      case snd currentNodeChild of
        None \<Rightarrow> (None, f1, None)
      | Some wrapper \<Rightarrow>
          (case handler f1 wrapper newNode of (r, f2, wrapper1) \<Rightarrow> (r, f2, Some wrapper1)))"

lemma handleForValues_cong [fundef_cong]:
  "f = f' \<Longrightarrow> c = c' \<Longrightarrow> v = v' \<Longrightarrow> (\<And>g x. h g x v' = h' g x v')
   \<Longrightarrow> handleForValues h f c v = handleForValues h' f' c' v'"
  by (simp add: handleForValues_def Let_def split: option.splits)

text \<open>
  \<open>ArrayUtils.toIterator\<close> is not among the sources; by its name it gives the
  JavaScript iterator over the array, here the list of the elements not yet consumed.
  \<open>next()\<close> gives \<open>value\<close> (\<open>undefined\<close> once the array is exhausted) and
  \<open>done\<close>, and moves the cursor by one: \<open>nextValue\<close>, \<open>nextDone\<close> and \<open>advance\<close>.
\<close>

type_synonym 'a iterator = "'a list"

definition toIterator :: "'a list \<Rightarrow> 'a iterator" where
  "toIterator xs = xs"

definition nextValue :: "'a iterator \<Rightarrow> 'a option" where
  "nextValue it = (case it of [] \<Rightarrow> None | x # _ \<Rightarrow> Some x)"

definition nextDone :: "'a iterator \<Rightarrow> bool" where
  "nextDone it = (it = [])"

definition advance :: "'a iterator \<Rightarrow> 'a iterator" where
  "advance it = (case it of [] \<Rightarrow> [] | _ # xs \<Rightarrow> xs)"

section \<open>The straight replacement handler\<close>

text \<open>The two errors the handler raises itself, with the messages of the source.\<close>

definition kindMismatch :: "wnode \<Rightarrow> tsnode \<Rightarrow> error" where
  "kindMismatch currentNode newNode =
     InvalidOperationError
       (''Error replacing tree! Perhaps a syntax error was inserted '' @
        ''(Current: '' @ getKindName currentNode @
        '' -- New: '' @ getSyntaxKindName (kind newNode) @ '').'')"

definition leftOver :: error where
  "leftOver = Error ''Error replacing tree: Should not have new children left over.''"

text \<open>The children of a wrapper after the loop has gone through them in place.\<close>

definition withChildren :: "wnode \<Rightarrow> wnode option list \<Rightarrow> wnode" where
  "withChildren w cs = WrapperNode (ident w) (underlying w) cs"

lemma size_children: "size_list size (children n) < size n"
  by (cases n) simp

text \<open>
  \<open>handleNode\<close> and \<open>handleChildren\<close> of \<open>StraightReplacementNodeHandler\<close>;
  \<open>handleChildrenLoop\<close> is the \<open>for ... of\<close> loop of \<open>handleChildren\<close>. The new
  node of \<open>handleNode\<close> is \<open>None\<close> when the loop hands on the \<open>undefined\<close> of an
  exhausted iterator: reading its \<open>kind\<close> raises.
\<close>

function handleNode :: "factory \<Rightarrow> wnode \<Rightarrow> tsnode option \<Rightarrow> outcome"
  and handleChildren :: "factory \<Rightarrow> wnode \<Rightarrow> tsnode \<Rightarrow> outcome"
  and handleChildrenLoop ::
    "factory \<Rightarrow> child list \<Rightarrow> tsnode iterator
      \<Rightarrow> error option \<times> factory \<times> wnode option list \<times> tsnode iterator"
where
  "handleNode f currentNode None = (Some TypeError, f, currentNode)"
| "handleNode f currentNode (Some newNode) =
     (if getKind currentNode \<noteq> kind newNode
      then (Some (kindMismatch currentNode newNode), f, currentNode)
      else if hasWrappedChildren currentNode then
        (case handleChildren f currentNode newNode of
           (Some e, f1, w1) \<Rightarrow> (Some e, f1, w1)
         | (None, f1, w1) \<Rightarrow> replaceCompilerNode f1 w1 newNode)
      else replaceCompilerNode f currentNode newNode)"
| "handleChildren f currentNode newNode =
     (case getChildrenFast currentNode newNode of
        (currentNodeChildren, newNodeChildrenArray) \<Rightarrow>
          (case handleChildrenLoop f currentNodeChildren (toIterator newNodeChildrenArray) of
             (Some e, f1, cs1, newNodeChildren) \<Rightarrow> (Some e, f1, withChildren currentNode cs1)
           | (None, f1, cs1, newNodeChildren) \<Rightarrow>
               if \<not> nextDone newNodeChildren
               then (Some leftOver, f1, withChildren currentNode cs1)
               else (None, f1, withChildren currentNode cs1)))"
| "handleChildrenLoop f [] newNodeChildren = (None, f, [], newNodeChildren)"
| "handleChildrenLoop f (currentNodeChild # rest) newNodeChildren =
     (case handleForValues (\<lambda>g c v. handleNode g c v) f currentNodeChild
             (nextValue newNodeChildren) of
        (Some e, f1, c1) \<Rightarrow> (Some e, f1, c1 # map snd rest, advance newNodeChildren)
      | (None, f1, c1) \<Rightarrow>
          (case handleChildrenLoop f1 rest (advance newNodeChildren) of
             (r, f2, rest1, it2) \<Rightarrow> (r, f2, c1 # rest1, it2)))"
  by pat_completeness auto
termination
  by (relation "measures [
     (\<lambda>x. case x of
        Inl (f, w, v) \<Rightarrow> (case v of None \<Rightarrow> 0 | Some n \<Rightarrow> size n)
      | Inr (Inl (f, w, n)) \<Rightarrow> size n
      | Inr (Inr (f, ws, it)) \<Rightarrow> size_list size it),
     (\<lambda>x. case x of
        Inl (f, w, v) \<Rightarrow> (case v of None \<Rightarrow> 0 | Some n \<Rightarrow> 2)
      | Inr (Inl (f, w, n)) \<Rightarrow> 1
      | Inr (Inr (f, ws, it)) \<Rightarrow> Suc (length ws))]")
    (auto simp: getChildrenFast_def toIterator_def nextValue_def advance_def size_children
          split: list.splits)

declare handleNode.simps [simp del] handleChildren.simps [simp del]

section \<open>Paths and shapes\<close>

text \<open>
  The wrapper a wrapper has for the child at a position, if any, and its materialized
  children in tracked order.
\<close>

definition slotAt :: "wnode option list \<Rightarrow> nat \<Rightarrow> wnode option" where
  "slotAt ms i = (if i < length ms then ms ! i else None)"

fun trackedOf :: "wnode option list \<Rightarrow> wnode list" where
  "trackedOf [] = []"
| "trackedOf (None # ms) = trackedOf ms"
| "trackedOf (Some c # ms) = c # trackedOf ms"

definition tracked :: "wnode \<Rightarrow> wnode list" where
  "tracked w = trackedOf (materialized w)"

text \<open>
  A structural path is the list of child positions from the root of a subtree: the node
  at a path of a parse tree, and the wrapper of the node at a path of the tree a wrapper
  is bound to, if that node and the nodes above it have wrappers.
\<close>

fun nodeAt :: "tsnode \<Rightarrow> nat list \<Rightarrow> tsnode option" where
  "nodeAt n [] = Some n"
| "nodeAt n (i # p) =
     (if i < length (children n) then nodeAt (children n ! i) p else None)"

fun wrapperAt :: "wnode \<Rightarrow> nat list \<Rightarrow> wnode option" where
  "wrapperAt w [] = Some w"
| "wrapperAt w (i # p) =
     (if i < length (children (underlying w))
      then (case slotAt (materialized w) i of None \<Rightarrow> None | Some c \<Rightarrow> wrapperAt c p)
      else None)"

text \<open>
  Two parse subtrees are identical kind for kind and child count for child count: the
  kinds at the roots are equal, the roots have as many children, and the children are so
  pairwise, in order.
\<close>

fun sameShape :: "tsnode \<Rightarrow> tsnode \<Rightarrow> bool" where
  "sameShape (TsNode i k cs) (TsNode j l ns) = (k = l \<and> list_all2 sameShape cs ns)"

text \<open>
  A wrapper subtree is a wrapper tree over the parse tree its root is bound to (spec 3):
  the wrapper listed for a child is bound to that child, and is such a tree itself; no
  wrapper is listed where the node has no child. Any child may be without a wrapper.
\<close>

fun wrapsItsTree :: "wnode \<Rightarrow> bool"
  and wrapTheirTrees :: "tsnode list \<Rightarrow> wnode option list \<Rightarrow> bool" where
  "wrapsItsTree (WrapperNode i u ms) = wrapTheirTrees (children u) ms"
| "wrapTheirTrees cs [] = True"
| "wrapTheirTrees [] (m # ms) = False"
| "wrapTheirTrees (c # cs) (None # ms) = wrapTheirTrees cs ms"
| "wrapTheirTrees (c # cs) (Some x # ms) =
     (underlying x = c \<and> wrapsItsTree x \<and> wrapTheirTrees cs ms)"

text \<open>The current node's children as the loop of \<open>handleChildren\<close> goes through them.\<close>

abbreviation currentChildren :: "wnode \<Rightarrow> tsnode \<Rightarrow> child list" where
  "currentChildren w n \<equiv> fst (getChildrenFast w n)"

section \<open>The if statement wrapper\<close>

text \<open>
  A getter of a wrapper class may create wrappers on the way, and the factory may refuse:
  it takes the state of the factory and returns the error or the value, and the state.
\<close>

type_synonym ('a, 's) getter = "'s \<Rightarrow> (error + 'a) \<times> 's"

text \<open>
  \<open>ts.IfStatement\<close>, the fields the class reads; \<open>elseStatement\<close> is optional.
  The wrapper class \<open>IfStatement\<close> holds it as \<open>compilerNode\<close>.
\<close>

record ts_IfStatement =
  expression :: tsnode
  thenStatement :: tsnode
  elseStatement :: "tsnode option"

record IfStatement =
  compilerNode :: ts_IfStatement

text \<open>
  \<open>Node._getNodeFromCompilerNode\<close> and \<open>CompilerFactory.getNodeFromCompilerNode\<close>
  are not among the sources: the getters below take the operation as the parameter
  \<open>wrap\<close>, from a parse node to its wrapper (the registry's \<open>wrap\<close>, 4.1, which may
  register a new wrapper and may fail).
\<close>

text \<open>
  Modelled from the spec: \<open>Node._getNodeFromCompilerNodeIfExists\<close> is not among the
  sources. By its name and its result type \<open>Statement | undefined\<close> it is \<open>wrap\<close> (4.1)
  for a node that exists, and \<open>undefined\<close>, with nothing done, for one that does not.
\<close>

definition getNodeFromCompilerNodeIfExists ::
  "(tsnode \<Rightarrow> ('w, 's) getter) \<Rightarrow> tsnode option \<Rightarrow> ('w option, 's) getter" where
  "getNodeFromCompilerNodeIfExists wrap cn s =
     (case cn of
        None \<Rightarrow> (Inr None, s)
      | Some n \<Rightarrow>
          (case wrap n s of (Inl e, s1) \<Rightarrow> (Inl e, s1) | (Inr w, s1) \<Rightarrow> (Inr (Some w), s1)))"

definition getExpression ::
  "(tsnode \<Rightarrow> ('w, 's) getter) \<Rightarrow> IfStatement \<Rightarrow> ('w, 's) getter" where
  "getExpression wrap this s = wrap (expression (compilerNode this)) s"

definition getThenStatement ::
  "(tsnode \<Rightarrow> ('w, 's) getter) \<Rightarrow> IfStatement \<Rightarrow> ('w, 's) getter" where
  "getThenStatement wrap this s = wrap (thenStatement (compilerNode this)) s"

definition getElseStatement ::
  "(tsnode \<Rightarrow> ('w, 's) getter) \<Rightarrow> IfStatement \<Rightarrow> ('w option, 's) getter" where
  "getElseStatement wrap this s =
     getNodeFromCompilerNodeIfExists wrap (elseStatement (compilerNode this)) s"

section \<open>The statemented node mixin\<close>

text \<open>
  \<open>this.node\<close> of a statemented node (a source file, a function declaration, a module
  declaration or another function-like declaration): its kind and its optional
  \<open>body\<close>. The wrapper holds it as \<open>node\<close>; \<open>self\<close> is the wrapper object.
\<close>

record ts_Declaration =
  declKind :: SyntaxKind
  body :: "tsnode option"

record 'w StatementedNode =
  self :: 'w
  node :: ts_Declaration

text \<open>
  Modelled from the spec: the type guards \<open>isSourceFile\<close>, \<open>isNamespaceDeclaration\<close>
  and \<open>isFunctionDeclaration\<close> of \<open>Node\<close> are not among the sources; they are the
  branching on the type tag of the node (9). A namespace declaration is a node of kind
  \<open>ModuleDeclaration\<close>, as \<open>getNamespaces\<close> has it.
\<close>

definition isSourceFile :: "'w StatementedNode \<Rightarrow> bool" where
  "isSourceFile this = (declKind (node this) = SourceFile)"

definition isNamespaceDeclaration :: "'w StatementedNode \<Rightarrow> bool" where
  "isNamespaceDeclaration this = (declKind (node this) = ModuleDeclaration)"

definition isFunctionDeclaration :: "'w StatementedNode \<Rightarrow> bool" where
  "isFunctionDeclaration this = (declKind (node this) = FunctionDeclaration)"

text \<open>
  Modelled from the spec: \<open>Node.getNotImplementedError\<close> is not among the sources. By
  its name it builds the \<open>NotImplementedError\<close> of this node; the message is not given
  anywhere and is taken to be the name of the kind.
\<close>

definition getNotImplementedError :: "'w StatementedNode \<Rightarrow> error" where
  "getNotImplementedError this = NotImplementedError (getSyntaxKindName (declKind (node this)))"

text \<open>
  Modelled from the spec: \<open>this.factory.getNodeFromCompilerNode(this.node.body)\<close> is
  \<open>wrap\<close> on the body. The registry chooses the facade by the kind of the node it is
  given (4.1), so an absent body, \<open>undefined\<close>, raises when its kind is read.
\<close>

definition getNodeFromCompilerNode ::
  "(tsnode \<Rightarrow> ('w, 's) getter) \<Rightarrow> tsnode option \<Rightarrow> ('w, 's) getter" where
  "getNodeFromCompilerNode wrap cn s =
     (case cn of None \<Rightarrow> (Inl TypeError, s) | Some n \<Rightarrow> wrap n s)"

definition getBody ::
  "(tsnode \<Rightarrow> ('w, 's) getter) \<Rightarrow> 'w StatementedNode \<Rightarrow> ('w, 's) getter" where
  "getBody wrap this s =
     (if isSourceFile this then (Inr (self this), s)
      else if isNamespaceDeclaration this then getNodeFromCompilerNode wrap (body (node this)) s
      else if isFunctionDeclaration this then
        (if body (node this) = None
         then (Inl (NotImplementedError ''Function declaration has no body.''), s)
         else getNodeFromCompilerNode wrap (body (node this)) s)
      else (Inl (getNotImplementedError this), s))"

text \<open>
  \<open>Array.prototype.map\<close> with a getter as the callback: the elements in order, the
  state handed from one call to the next, the first error ending it.
\<close>

fun arrayMap :: "('a \<Rightarrow> ('b, 's) getter) \<Rightarrow> 'a list \<Rightarrow> ('b list, 's) getter" where
  "arrayMap g [] s = (Inr [], s)"
| "arrayMap g (x # xs) s =
     (case g x s of
        (Inl e, s1) \<Rightarrow> (Inl e, s1)
      | (Inr y, s1) \<Rightarrow>
          (case arrayMap g xs s1 of
             (Inl e, s2) \<Rightarrow> (Inl e, s2)
           | (Inr ys, s2) \<Rightarrow> (Inr (y # ys), s2)))"

text \<open>
  \<open>Node.getMainChildrenOfKind\<close>, \<open>VariableStatement.getDeclarationList\<close> and
  \<open>VariableDeclarationList.getDeclarations\<close> are not among the sources: the three
  getters below take them as parameters.
\<close>

definition getVariableStatements ::
  "('t \<Rightarrow> SyntaxKind \<Rightarrow> ('vs list, 's) getter) \<Rightarrow> 't \<Rightarrow> ('vs list, 's) getter" where
  "getVariableStatements getMainChildrenOfKind this s =
     getMainChildrenOfKind this VariableStatement s"

definition getVariableDeclarationLists ::
  "('t \<Rightarrow> SyntaxKind \<Rightarrow> ('vs list, 's) getter) \<Rightarrow> ('vs \<Rightarrow> ('dl, 's) getter)
    \<Rightarrow> 't \<Rightarrow> ('dl list, 's) getter" where
  "getVariableDeclarationLists getMainChildrenOfKind getDeclarationList this s =
     (case getVariableStatements getMainChildrenOfKind this s of
        (Inl e, s1) \<Rightarrow> (Inl e, s1)
      | (Inr stmts, s1) \<Rightarrow> arrayMap (\<lambda>st. getDeclarationList st) stmts s1)"

text \<open>
  The \<open>for ... of\<close> loop of \<open>getVariableDeclarations\<close>:
  \<open>variables.push(...list.getDeclarations())\<close> for each declaration list in turn.
\<close>

fun pushDeclarations ::
  "('dl \<Rightarrow> ('vd list, 's) getter) \<Rightarrow> 'dl list \<Rightarrow> 'vd list \<Rightarrow> ('vd list, 's) getter" where
  "pushDeclarations getDeclarations [] variables s = (Inr variables, s)"
| "pushDeclarations getDeclarations (declarationList # rest) variables s =
     (case getDeclarations declarationList s of
        (Inl e, s1) \<Rightarrow> (Inl e, s1)
      | (Inr ds, s1) \<Rightarrow> pushDeclarations getDeclarations rest (variables @ ds) s1)"

definition getVariableDeclarations ::
  "('t \<Rightarrow> SyntaxKind \<Rightarrow> ('vs list, 's) getter) \<Rightarrow> ('vs \<Rightarrow> ('dl, 's) getter)
    \<Rightarrow> ('dl \<Rightarrow> ('vd list, 's) getter) \<Rightarrow> 't \<Rightarrow> ('vd list, 's) getter" where
  "getVariableDeclarations getMainChildrenOfKind getDeclarationList getDeclarations this s =
     (case getVariableDeclarationLists getMainChildrenOfKind getDeclarationList this s of
        (Inl e, s1) \<Rightarrow> (Inl e, s1)
      | (Inr declarationLists, s1) \<Rightarrow> pushDeclarations getDeclarations declarationLists [] s1)"

section \<open>Example trees\<close>

text \<open>
  The scenario of the spec (8): a source file with one function declaration, wrappers
  for the file, the function and its body block, none for the function's name or for the
  statement in the block; and the tree of the same shape that a reparse gives.
\<close>

definition wrappedFile :: wnode where
  "wrappedFile =
     WrapperNode 1
       (TsNode 10 SourceFile
          [TsNode 11 FunctionDeclaration
             [TsNode 13 (OtherKind ''Identifier'') [],
              TsNode 12 Block [TsNode 14 VariableStatement []]]])
       [Some (WrapperNode 2
          (TsNode 11 FunctionDeclaration
             [TsNode 13 (OtherKind ''Identifier'') [],
              TsNode 12 Block [TsNode 14 VariableStatement []]])
          [None, Some (WrapperNode 3 (TsNode 12 Block [TsNode 14 VariableStatement []]) [])])]"

definition newFile :: tsnode where
  "newFile =
     TsNode 20 SourceFile
       [TsNode 21 FunctionDeclaration
          [TsNode 23 (OtherKind ''Identifier'') [],
           TsNode 22 Block [TsNode 24 VariableStatement []]]]"

definition startFactory :: factory where
  "startFactory = \<lparr>registry = [10 \<mapsto> 1, 11 \<mapsto> 2, 12 \<mapsto> 3], calls = []\<rparr>"

text \<open>
  A source file with a function and a class: both wrapped, only the function wrapped,
  only the class wrapped.
\<close>

definition wrappedPair :: wnode where
  "wrappedPair =
     WrapperNode 1
       (TsNode 10 SourceFile [TsNode 11 FunctionDeclaration [], TsNode 12 ClassDeclaration []])
       [Some (WrapperNode 2 (TsNode 11 FunctionDeclaration []) []),
        Some (WrapperNode 3 (TsNode 12 ClassDeclaration []) [])]"

definition wrappedFirst :: wnode where
  "wrappedFirst =
     WrapperNode 1
       (TsNode 10 SourceFile [TsNode 11 FunctionDeclaration [], TsNode 12 ClassDeclaration []])
       [Some (WrapperNode 2 (TsNode 11 FunctionDeclaration []) []), None]"


text \<open>
  Reparses of that file: nothing changed; an enum where the class was; an enum put before
  the function and the class; an enum added after them.
\<close>

definition reparsedPair :: tsnode where
  "reparsedPair =
     TsNode 20 SourceFile [TsNode 21 FunctionDeclaration [], TsNode 22 ClassDeclaration []]"

definition editedFile :: tsnode where
  "editedFile =
     TsNode 20 SourceFile [TsNode 21 FunctionDeclaration [], TsNode 22 EnumDeclaration []]"

definition shiftedFile :: tsnode where
  "shiftedFile =
     TsNode 20 SourceFile
       [TsNode 21 EnumDeclaration [], TsNode 22 FunctionDeclaration [],
        TsNode 23 ClassDeclaration []]"

definition grownFile :: tsnode where
  "grownFile =
     TsNode 20 SourceFile
       [TsNode 21 FunctionDeclaration [], TsNode 22 ClassDeclaration [],
        TsNode 23 EnumDeclaration []]"

text \<open>The factory once the function's wrapper has been rebound.\<close>

definition afterFirst :: factory where
  "afterFirst =
     \<lparr>registry = [10 \<mapsto> 1, 11 \<mapsto> 2, 12 \<mapsto> 3](11 := None, 21 \<mapsto> 2),
      calls = [HandleForValues 11 (Some 21), ReplaceCompilerNode 2 21]\<rparr>"

text \<open>
  A factory for the getters: the wrapper of a node is named by the identity of the node,
  and the state counts the wrappers asked for.
\<close>

definition wrapByIdentity :: "tsnode \<Rightarrow> (nat, nat) getter" where
  "wrapByIdentity n s = (Inr (nid n), Suc s)"

section \<open>Lemmas about the loop and the handler\<close>

lemma length_pairWrappers [simp]: "length (pairWrappers cs ms) = length cs"
  by (induction cs ms rule: pairWrappers.induct) auto

lemma snd_pairWrappers:
  "i < length cs \<Longrightarrow> snd (pairWrappers cs ms ! i) = slotAt ms i"
  by (induction cs ms arbitrary: i rule: pairWrappers.induct)
     (auto simp: slotAt_def nth_Cons split: nat.splits)


lemma handleForValues_wrapped:
  "snd c = Some x \<Longrightarrow>
   handleForValues handleNode f c v =
     (case handleNode
        (f\<lparr>calls := calls f @ [HandleForValues (nid (fst c)) (map_option nid v)]\<rparr>) x v of
        (r, f2, x1) \<Rightarrow> (r, f2, Some x1))"
  by (simp add: handleForValues_def Let_def)

lemma handleForValues_unwrapped:
  "snd c = None \<Longrightarrow>
   handleForValues h f c v =
     (None, f\<lparr>calls := calls f @ [HandleForValues (nid (fst c)) (map_option nid v)]\<rparr>, None)"
  by (simp add: handleForValues_def Let_def)

lemma loop_length:
  "handleChildrenLoop f ws it = (r, f', ws', it') \<Longrightarrow> length ws' = length ws"
  by (induction ws arbitrary: f it r f' ws' it')
     (auto split: prod.splits option.splits)

lemma advance_drop: "advance (drop k it) = drop (Suc k) it"
  by (simp add: advance_def drop_Suc drop_tl split: list.splits)

lemma drop_advance: "drop k (advance it) = drop (Suc k) it"
  by (cases it) (simp_all add: advance_def)

lemma nextValue_drop:
  "nextValue (drop i it) = (if i < length it then Some (it ! i) else None)"
  by (auto simp: nextValue_def split: list.splits
           dest: arg_cong [where f = hd] simp: hd_drop_conv_nth)

lemma loop_cursor:
  "handleChildrenLoop f ws it = (None, f', ws', it') \<Longrightarrow> it' = drop (length ws) it"
proof (induction ws arbitrary: f it f' ws' it')
  case Nil
  then show ?case by simp
next
  case (Cons c cs)
  from Cons.prems obtain f1 rest1 where
    rest: "handleChildrenLoop f1 cs (advance it) = (None, f', rest1, it')"
    by (auto split: prod.splits option.splits)
  from Cons.IH [OF rest] show ?case
    by (simp add: drop_advance)
qed

lemma loop_append:
  "handleChildrenLoop f (xs @ ys) it =
     (case handleChildrenLoop f xs it of
        (Some e, f1, xs1, it1) \<Rightarrow> (Some e, f1, xs1 @ map snd ys, it1)
      | (None, f1, xs1, it1) \<Rightarrow>
          (case handleChildrenLoop f1 ys it1 of
             (r, f2, ys1, it2) \<Rightarrow> (r, f2, xs1 @ ys1, it2)))"
  by (induction xs arbitrary: f it) (auto split: prod.splits option.splits)

lemma replaceCompilerNode_result:
  "getKind w = kind n \<Longrightarrow>
   replaceCompilerNode f w n =
     (None,
      \<lparr>registry = ((registry f)(nid (underlying w) := None))(nid n \<mapsto> ident w),
       calls = calls f @ [ReplaceCompilerNode (ident w) (nid n)]\<rparr>,
      WrapperNode (ident w) n (materialized w))"
  by (simp add: replaceCompilerNode_def Let_def)

lemma handleChildren_result:
  "handleChildren f w n = (r, f', w')
   \<Longrightarrow> \<exists>r1 cs1 it1.
         handleChildrenLoop f (pairWrappers (children (underlying w)) (materialized w))
           (children n) = (r1, f', cs1, it1)
         \<and> w' = withChildren w cs1
         \<and> r = (case r1 of Some e \<Rightarrow> Some e | None \<Rightarrow> if it1 = [] then None else Some leftOver)"
  by (auto simp: handleChildren.simps getChildrenFast_def toIterator_def nextDone_def
           split: prod.splits option.splits if_splits)

lemma getKind_withChildren [simp]: "getKind (withChildren w cs) = getKind w"
  by (simp add: getKind_def withChildren_def)

lemma withChildren_sel [simp]:
  "ident (withChildren w cs) = ident w"
  "underlying (withChildren w cs) = underlying w"
  "materialized (withChildren w cs) = cs"
  by (simp_all add: withChildren_def)

lemma handleNode_eq:
  assumes "getKind w = kind n"
  shows "handleNode f w (Some n) =
     (if \<not> hasWrappedChildren w then replaceCompilerNode f w n
      else case handleChildrenLoop f
                  (pairWrappers (children (underlying w)) (materialized w)) (children n) of
             (Some e, f1, cs1, it1) \<Rightarrow> (Some e, f1, withChildren w cs1)
           | (None, f1, cs1, it1) \<Rightarrow>
               if it1 \<noteq> [] then (Some leftOver, f1, withChildren w cs1)
               else replaceCompilerNode f1 (withChildren w cs1) n)"
  using assms
  by (auto simp: handleNode.simps handleChildren.simps
        getChildrenFast_def toIterator_def nextDone_def
        split: prod.splits option.splits)

text \<open>What handleNode leaves of the wrapper it was given.\<close>

lemma handleNode_top:
  assumes "handleNode f w v = (r, f', w')"
  shows "ident w' = ident w" and "getKind w' = getKind w"
    and "r \<noteq> None \<Longrightarrow> underlying w' = underlying w"
    and "r = None \<Longrightarrow> v = Some (underlying w')"
proof -
  have "ident w' = ident w \<and> getKind w' = getKind w
     \<and> (r \<noteq> None \<longrightarrow> underlying w' = underlying w)
     \<and> (r = None \<longrightarrow> v = Some (underlying w'))"
  proof (cases v)
    case None
    with assms show ?thesis by (auto simp: handleNode.simps)
  next
    case (Some n)
    show ?thesis
    proof (cases "getKind w = kind n")
      case False
      with assms Some show ?thesis by (auto simp: handleNode.simps)
    next
      case kinds: True
      show ?thesis
      proof (cases "hasWrappedChildren w")
        case False
        with assms Some kinds show ?thesis
          by (auto simp: handleNode.simps replaceCompilerNode_result getKind_def)
      next
        case True
        obtain r1 f1 w1 where hc: "handleChildren f w n = (r1, f1, w1)"
          by (metis prod_cases3)
        from handleChildren_result [OF hc] obtain cs1 where
          w1: "w1 = withChildren w cs1" by blast
        show ?thesis
        proof (cases r1)
          case None
          with assms Some kinds True hc w1 show ?thesis
            by (auto simp: handleNode.simps replaceCompilerNode_result getKind_def)
        next
          case (Some e)
          with assms \<open>v = Some n\<close> kinds True hc w1 show ?thesis
            by (auto simp: handleNode.simps)
        qed
      qed
    qed
  qed
  then show "ident w' = ident w" and "getKind w' = getKind w"
    and "r \<noteq> None \<Longrightarrow> underlying w' = underlying w"
    and "r = None \<Longrightarrow> v = Some (underlying w')" by auto
qed

text \<open>The journal of calls only grows.\<close>

lemma calls_grow:
  "\<exists>es. calls (fst (snd (handleNode f w v))) = calls f @ es"
  "\<exists>es. calls (fst (snd (handleChildren f w n))) = calls f @ es"
  "\<exists>es. calls (fst (snd (handleChildrenLoop f ws it))) = calls f @ es"
proof (induction f w v and f w n and f ws it rule: handleNode_handleChildren_handleChildrenLoop.induct)
  case (1 f currentNode)
  then show ?case by (simp add: handleNode.simps)
next
  case (2 f currentNode newNode)
  then show ?case
    by (auto simp: handleNode.simps replaceCompilerNode_def Let_def
             split: prod.splits option.splits)
next
  case (3 f currentNode newNode)
  then show ?case
    by (auto simp: handleChildren.simps getChildrenFast_def split: prod.splits option.splits)
next
  case (4 f newNodeChildren)
  then show ?case by simp
next
  case (5 f currentNodeChild rest newNodeChildren)
  let ?v = "nextValue newNodeChildren"
  let ?g = "f\<lparr>calls := calls f @ [HandleForValues (nid (fst currentNodeChild))
                 (map_option nid ?v)]\<rparr>"
  obtain r1 f1 c1 where
    first: "handleForValues handleNode f currentNodeChild ?v = (r1, f1, c1)"
    by (metis prod_cases3)
  have es: "\<exists>es. calls f1 = calls f @ es"
  proof (cases "snd currentNodeChild")
    case None
    with first show ?thesis by (auto simp: handleForValues_unwrapped)
  next
    case (Some x)
    with first have "f1 = fst (snd (handleNode ?g x ?v))"
      by (auto simp: handleForValues_wrapped split: prod.splits)
    with "5.IH"(1) [of ?g x] show ?thesis by auto
  qed
  show ?case
  proof (cases r1)
    case (Some e)
    with first es show ?thesis by simp
  next
    case None
    from first None have
      "(None, f1, c1) = handleForValues handleNode f currentNodeChild ?v"
      by simp
    from "5.IH"(2) [OF this refl refl]
    obtain es2 where "calls (fst (snd (handleChildrenLoop f1 rest (advance newNodeChildren)))) = calls f1 @ es2"
      by blast
    with first None es show ?thesis
      by (auto split: prod.splits)
  qed
qed

lemma handleForValues_grow:
  "handleForValues handleNode f c v = (r, f', s) \<Longrightarrow> \<exists>es. calls f' = calls f @ es"
proof (cases "snd c")
  case None
  assume "handleForValues handleNode f c v = (r, f', s)"
  with None show ?thesis by (auto simp: handleForValues_unwrapped)
next
  case (Some x)
  let ?g = "f\<lparr>calls := calls f @ [HandleForValues (nid (fst c)) (map_option nid v)]\<rparr>"
  assume "handleForValues handleNode f c v = (r, f', s)"
  with Some have "f' = fst (snd (handleNode ?g x v))"
    by (auto simp: handleForValues_wrapped split: prod.splits)
  with calls_grow(1) [of ?g x v] show ?thesis by auto
qed

text \<open>
  In a loop that completed, the wrapper of a tracked child went through a successful
  \<open>handleNode\<close> against the new child at the child's position; an untracked child's
  place stays empty.
\<close>

lemma loop_nth:
  "handleChildrenLoop f ws it = (None, f', ws', it') \<Longrightarrow> i < length ws
   \<Longrightarrow> snd (ws ! i) = Some c
   \<Longrightarrow> i < length it \<and>
       (\<exists>g g' c1 es1 es2. handleNode g c (Some (it ! i)) = (None, g', c1) \<and> ws' ! i = Some c1
          \<and> calls g = calls f @ es1 \<and> calls f' = calls g' @ es2)"
proof (induction ws arbitrary: f it f' ws' it' i)
  case Nil
  then show ?case by simp
next
  case (Cons c0 cs)
  from Cons.prems(1) obtain f1 c1 rest1 where
    first: "handleForValues handleNode f c0 (nextValue it) = (None, f1, c1)" and
    rest: "handleChildrenLoop f1 cs (advance it) = (None, f', rest1, it')" and
    ws': "ws' = c1 # rest1"
    by (auto split: prod.splits option.splits)
  from calls_grow(3) [of f1 cs "advance it"] rest obtain es2 where
    es2: "calls f' = calls f1 @ es2" by auto
  from handleForValues_grow [OF first] obtain es1 where
    es1: "calls f1 = calls f @ es1" by auto
  show ?case
  proof (cases i)
    case 0
    with Cons.prems(3) have wrapped: "snd c0 = Some c" by simp
    let ?g = "f\<lparr>calls := calls f @ [HandleForValues (nid (fst c0))
                 (map_option nid (nextValue it))]\<rparr>"
    from first wrapped obtain x1 where
      hn: "handleNode ?g c (nextValue it) = (None, f1, x1)" and c1: "c1 = Some x1"
      by (auto simp: handleForValues_wrapped split: prod.splits)
    from hn have "nextValue it \<noteq> None"
      by (cases "nextValue it") (auto simp: handleNode.simps)
    then obtain n ns where it: "it = n # ns"
      by (cases it) (auto simp: nextValue_def)
    from hn it have hn': "handleNode ?g c (Some (it ! 0)) = (None, f1, x1)"
      by (simp add: nextValue_def)
    have g: "calls ?g
        = calls f @ [HandleForValues (nid (fst c0)) (map_option nid (nextValue it))]"
      by simp
    from ws' c1 have at: "ws' ! 0 = Some x1" by simp
    from it have "0 < length it" by simp
    with hn' at g es2 show ?thesis unfolding 0 by blast
  next
    case (Suc j)
    with Cons.prems have j: "j < length cs" and wrapped: "snd (cs ! j) = Some c" by simp_all
    from Cons.IH [OF rest j wrapped] obtain g g' x1 e1 e2 where
      jl: "j < length (advance it)" and
      hn: "handleNode g c (Some (advance it ! j)) = (None, g', x1)" and
      at: "rest1 ! j = Some x1" and
      g: "calls g = calls f1 @ e1" and g': "calls f' = calls g' @ e2"
      by blast
    from jl obtain n ns where it: "it = n # ns"
      by (cases it) (auto simp: advance_def)
    from g es1 have "calls g = calls f @ (es1 @ e1)" by simp
    with jl hn at g' it Suc ws' show ?thesis
      by (auto simp: advance_def)
  qed
qed

lemma loop_nth_unwrapped:
  "handleChildrenLoop f ws it = (r, f', ws', it') \<Longrightarrow> i < length ws
   \<Longrightarrow> snd (ws ! i) = None \<Longrightarrow> ws' ! i = None"
proof (induction ws arbitrary: f it r f' ws' it' i)
  case Nil
  then show ?case by simp
next
  case (Cons c0 cs)
  obtain r1 f1 c1 where
    first: "handleForValues handleNode f c0 (nextValue it) = (r1, f1, c1)"
    by (metis prod_cases3)
  show ?case
  proof (cases r1)
    case (Some e)
    with first Cons.prems(1) have ws': "ws' = c1 # map snd cs" by auto
    from first Some have "snd c0 \<noteq> None"
      by (cases "snd c0") (auto simp: handleForValues_unwrapped)
    with ws' Cons.prems(2,3) show ?thesis by (cases i) auto
  next
    case None
    with first Cons.prems(1) obtain rest1 where
      rest: "handleChildrenLoop f1 cs (advance it) = (r, f', rest1, it')" and
      ws': "ws' = c1 # rest1"
      by (auto split: prod.splits)
    show ?thesis
    proof (cases i)
      case 0
      with Cons.prems(3) first ws' show ?thesis
        by (auto simp: handleForValues_unwrapped)
    next
      case (Suc j)
      with Cons.prems have "j < length cs" "snd (cs ! j) = None" by simp_all
      from Cons.IH [OF rest this] Suc ws' show ?thesis by simp
    qed
  qed
qed

lemma loop_step:
  assumes "k < length ws" and "handleChildrenLoop f (take k ws) it = (None, fk, wsk, itk)"
  shows "itk = drop k it"
    and "handleChildrenLoop f ws it =
      (case handleForValues handleNode fk (ws ! k) (nextValue itk) of
         (Some e, f1, c1) \<Rightarrow> (Some e, f1, wsk @ c1 # map snd (drop (Suc k) ws), advance itk)
       | (None, f1, c1) \<Rightarrow>
           (case handleChildrenLoop f1 (drop (Suc k) ws) (advance itk) of
              (r, f2, rest1, it2) \<Rightarrow> (r, f2, wsk @ c1 # rest1, it2)))"
proof -
  from loop_cursor [OF assms(2)] assms(1) show "itk = drop k it" by simp
  have "ws = take k ws @ ws ! k # drop (Suc k) ws"
    using assms(1) by (simp add: id_take_nth_drop)
  then have "handleChildrenLoop f ws it =
      handleChildrenLoop f (take k ws @ ws ! k # drop (Suc k) ws) it" by simp
  also have "\<dots> = (case handleForValues handleNode fk (ws ! k) (nextValue itk) of
         (Some e, f1, c1) \<Rightarrow> (Some e, f1, wsk @ c1 # map snd (drop (Suc k) ws), advance itk)
       | (None, f1, c1) \<Rightarrow>
           (case handleChildrenLoop f1 (drop (Suc k) ws) (advance itk) of
              (r, f2, rest1, it2) \<Rightarrow> (r, f2, wsk @ c1 # rest1, it2)))"
    unfolding loop_append assms(2)
    by (auto split: prod.splits option.splits)
  finally show "handleChildrenLoop f ws it =
      (case handleForValues handleNode fk (ws ! k) (nextValue itk) of
         (Some e, f1, c1) \<Rightarrow> (Some e, f1, wsk @ c1 # map snd (drop (Suc k) ws), advance itk)
       | (None, f1, c1) \<Rightarrow>
           (case handleChildrenLoop f1 (drop (Suc k) ws) (advance itk) of
              (r, f2, rest1, it2) \<Rightarrow> (r, f2, wsk @ c1 # rest1, it2)))" .
qed

lemma handleNode_success_last:
  assumes "handleNode f w (Some n) = (None, f', w')"
  shows "registry f' (nid n) = Some (ident w)"
    and "\<exists>es. calls f' = calls f @ es @ [ReplaceCompilerNode (ident w) (nid n)]"
proof -
  have kinds: "getKind w = kind n"
    using assms by (auto simp: handleNode.simps split: if_splits)
  obtain r1 f1 cs1 it1 where
    loop: "handleChildrenLoop f (pairWrappers (children (underlying w)) (materialized w))
             (children n) = (r1, f1, cs1, it1)"
    by (metis prod_cases4)
  from calls_grow(3) [of f "pairWrappers (children (underlying w)) (materialized w)" "children n"]
    loop
  obtain es where es: "calls f1 = calls f @ es" by auto
  from assms kinds loop es
  show "registry f' (nid n) = Some (ident w)"
    by (auto simp: handleNode_eq replaceCompilerNode_result split: option.splits if_splits)
  from assms kinds loop es
  show "\<exists>es. calls f' = calls f @ es @ [ReplaceCompilerNode (ident w) (nid n)]"
    by (auto simp: handleNode_eq replaceCompilerNode_result split: option.splits if_splits)
qed

text \<open>
  What a successful handleNode did for the wrapper of the node at a path: it is still the
  object there, of the kind it had, bound to the node at that path of the new tree, and
  the factory was asked to rebind it to that node.
\<close>

lemma handleNode_success_path:
  "handleNode f w (Some n) = (None, f', w') \<Longrightarrow> wrapperAt w p = Some x
   \<Longrightarrow> \<exists>x' m es. wrapperAt w' p = Some x' \<and> ident x' = ident x \<and> getKind x' = getKind x
         \<and> nodeAt n p = Some m \<and> underlying x' = m
         \<and> calls f' = calls f @ es \<and> ReplaceCompilerNode (ident x) (nid m) \<in> set es"
proof (induction p arbitrary: f w n f' w' x)
  case Nil
  from handleNode_top [OF Nil.prems(1)] handleNode_success_last(2) [OF Nil.prems(1)]
    Nil.prems(2)
  show ?case by auto
next
  case (Cons i q)
  from Cons.prems(2) obtain c where
    i: "i < length (children (underlying w))" and
    slot: "slotAt (materialized w) i = Some c" and
    at: "wrapperAt c q = Some x"
    by (auto split: if_splits option.splits)
  from slot have "i < length (materialized w)" and "materialized w ! i = Some c"
    by (auto simp: slotAt_def split: if_splits)
  then have "Some c \<in> set (materialized w)"
    by (metis nth_mem)
  then have has: "hasWrappedChildren w"
    by (auto simp: hasWrappedChildren_def list_ex_iff)
  have kinds: "getKind w = kind n"
    using Cons.prems(1) by (auto simp: handleNode.simps split: if_splits)
  let ?ws = "pairWrappers (children (underlying w)) (materialized w)"
  obtain r1 f1 cs1 it1 where
    loop: "handleChildrenLoop f ?ws (children n) = (r1, f1, cs1, it1)"
    by (metis prod_cases4)
  from Cons.prems(1) kinds has loop have ok: "r1 = None" "it1 = []"
    and w': "w' = WrapperNode (ident w) n cs1"
    and f': "calls f' = calls f1 @ [ReplaceCompilerNode (ident w) (nid n)]"
    by (auto simp: handleNode_eq replaceCompilerNode_result split: option.splits if_splits)
  from loop ok have loop': "handleChildrenLoop f ?ws (children n) = (None, f1, cs1, [])"
    by simp
  from i have iw: "i < length ?ws" by simp
  from i slot have wrapped: "snd (?ws ! i) = Some c" by (simp add: snd_pairWrappers)
  from loop_nth [OF loop' iw wrapped] obtain g g' c1 es1 es2 where
    ic: "i < length (children n)" and
    hn: "handleNode g c (Some (children n ! i)) = (None, g', c1)" and
    c1: "cs1 ! i = Some c1" and
    g: "calls g = calls f @ es1" and g': "calls f1 = calls g' @ es2"
    by blast
  from loop_length [OF loop'] i have len: "i < length cs1" by simp
  from Cons.IH [OF hn at] obtain x' m es where
    x': "wrapperAt c1 q = Some x'" "ident x' = ident x" "getKind x' = getKind x"
      "nodeAt (children n ! i) q = Some m" "underlying x' = m"
      "calls g' = calls g @ es" "ReplaceCompilerNode (ident x) (nid m) \<in> set es"
    by blast
  from x'(6) g g' f' have
    "calls f' = calls f @ (es1 @ es @ es2 @ [ReplaceCompilerNode (ident w) (nid n)])"
    by simp
  moreover from x'(7) have "ReplaceCompilerNode (ident x) (nid m)
      \<in> set (es1 @ es @ es2 @ [ReplaceCompilerNode (ident w) (nid n)])"
    by simp
  moreover from w' ic len c1 x'(1) have "wrapperAt w' (i # q) = Some x'"
    by (simp add: slotAt_def)
  moreover from ic x'(4) have "nodeAt n (i # q) = Some m" by simp
  ultimately show ?case using x'(2,3,5) by blast
qed

text \<open>
  A wrapper tree over a parse tree is reconciled without error against any tree of the
  same shape.
\<close>

lemma loop_unwrapped:
  "\<exists>f'. handleChildrenLoop f (pairWrappers cs []) it
          = (None, f', map (\<lambda>c. None) cs, drop (length cs) it)"
proof (induction cs arbitrary: f it)
  case Nil
  then show ?case by simp
next
  case (Cons c cs)
  let ?g = "f\<lparr>calls := calls f @ [HandleForValues (nid c) (map_option nid (nextValue it))]\<rparr>"
  from Cons.IH [of ?g "advance it"] obtain f' where
    "handleChildrenLoop ?g (pairWrappers cs []) (advance it)
       = (None, f', map (\<lambda>c. None) cs, drop (length cs) (advance it))" by blast
  then show ?case
    by (simp add: handleForValues_unwrapped drop_advance)
qed

lemma sameShape_succeeds:
  "wrapsItsTree w \<Longrightarrow> sameShape (underlying w) n \<Longrightarrow> fst (handleNode f w (Some n)) = None"
  "wrapTheirTrees cs ms \<Longrightarrow> list_all2 sameShape cs ns
   \<Longrightarrow> \<exists>f' ws'. handleChildrenLoop f (pairWrappers cs ms) ns = (None, f', ws', [])"
proof (induction w and cs ms arbitrary: n f and ns f rule: wrapsItsTree_wrapTheirTrees.induct)
  case (1 i u ms)
  obtain j l ns where n: "n = TsNode j l ns" by (cases n)
  obtain i' k cs where u: "u = TsNode i' k cs" by (cases u)
  from "1.prems"(2) n u have kinds: "k = l" and shape: "list_all2 sameShape cs ns" by simp_all
  from "1.prems"(1) u have "wrapTheirTrees cs ms" by simp
  with "1.IH" [of ns f] shape u obtain f' ws' where
    "handleChildrenLoop f (pairWrappers cs ms) ns = (None, f', ws', [])" by auto
  with kinds n u show ?case
    by (simp add: handleNode_eq replaceCompilerNode_result getKind_def)
next
  case (2 cs)
  from loop_unwrapped [of f cs ns] list_all2_lengthD [OF "2.prems"(2)] show ?case by auto
next
  case (3 m ms)
  then show ?case by simp
next
  case (4 c cs ms)
  from "4.prems"(2) obtain n ns' where ns: "ns = n # ns'" and rest: "list_all2 sameShape cs ns'"
    by (cases ns) auto
  let ?g = "f\<lparr>calls := calls f @ [HandleForValues (nid c) (Some (nid n))]\<rparr>"
  from "4.prems"(1) have "wrapTheirTrees cs ms" by simp
  from "4.IH" [OF this rest, of ?g] show ?case
    by (auto simp: ns handleForValues_unwrapped nextValue_def advance_def)
next
  case (5 c cs x ms)
  from "5.prems"(2) obtain n ns' where ns: "ns = n # ns'" and shape: "sameShape c n"
    and rest: "list_all2 sameShape cs ns'"
    by (cases ns) auto
  from "5.prems"(1) have bound: "underlying x = c" and sub: "wrapsItsTree x"
    and others: "wrapTheirTrees cs ms" by simp_all
  let ?g = "f\<lparr>calls := calls f @ [HandleForValues (nid c) (Some (nid n))]\<rparr>"
  from bound shape have "sameShape (underlying x) n" by simp
  from "5.IH"(1) [OF sub this] have "fst (handleNode ?g x (Some n)) = None" .
  then obtain f1 x1 where
    first: "handleNode ?g x (Some n) = (None, f1, x1)"
    by (metis fst_conv prod_cases3)
  from "5.IH"(2) bound sub others rest obtain f' ws' where
    "handleChildrenLoop f1 (pairWrappers cs ms) ns' = (None, f', ws', [])" by blast
  with first show ?case
    by (simp add: ns handleForValues_wrapped nextValue_def advance_def)
qed


section \<open>Lemmas about the getters\<close>

lemma pushDeclarations_concat:
  "pushDeclarations g ls variables s =
     (case arrayMap g ls s of
        (Inl e, s1) \<Rightarrow> (Inl e, s1)
      | (Inr dss, s1) \<Rightarrow> (Inr (variables @ concat dss), s1))"
  by (induction ls arbitrary: variables s) (auto split: prod.splits sum.splits)

lemma arrayMap_pure:
  "(\<And>x t. g x t = (Inr (h x), t)) \<Longrightarrow> arrayMap g xs s = (Inr (map h xs), s)"
  by (induction xs arbitrary: s) auto

lemmas run_defs = handleNode.simps handleChildren.simps handleForValues_def
  replaceCompilerNode_def getChildrenFast_def toIterator_def nextValue_def nextDone_def
  advance_def hasWrappedChildren_def getKind_def withChildren_def Let_def

section \<open>Properties of the straight replacement handler\<close>

text \<open>
  C1 (identity preservation). Let \<open>w\<close> be the root of a wrapper subtree over the parse
  subtree it is bound to, with wrappers for any of the nodes below the root and none for
  the others, and let the new underlying subtree \<open>n\<close> be identical to that parse subtree
  kind for kind and child count for child count. Then \<open>handleNode\<close> completes without
  raising; the registry maps the new root node to the wrapper it was given; and every
  wrapper that was materialized is still the object at its path (the same identity), has
  the kind it had, is bound to the node at that path of the new tree, and got there by a
  rebind: the factory was asked to rebind that wrapper to that node during the run.
\<close>

theorem identity_preservation:
  assumes "sameShape (underlying w) n" and "wrapsItsTree w"
  shows "\<exists>f' w' es. handleNode f w (Some n) = (None, f', w')
      \<and> calls f' = calls f @ es
      \<and> registry f' (nid n) = Some (ident w)
      \<and> (\<forall>p x. wrapperAt w p = Some x \<longrightarrow>
           (\<exists>x' m. wrapperAt w' p = Some x' \<and> ident x' = ident x \<and> getKind x' = getKind x
                 \<and> nodeAt n p = Some m \<and> underlying x' = m
                 \<and> ReplaceCompilerNode (ident x) (nid m) \<in> set es))"
proof -
  obtain r f' w' where run: "handleNode f w (Some n) = (r, f', w')"
    by (metis prod_cases3)
  with sameShape_succeeds(1) [OF assms(2,1), of f]
  have ok: "handleNode f w (Some n) = (None, f', w')"
    by simp
  from calls_grow(1) [of f w "Some n"] ok obtain es where es: "calls f' = calls f @ es"
    by auto
  have "\<exists>x' m. wrapperAt w' p = Some x' \<and> ident x' = ident x \<and> getKind x' = getKind x
                 \<and> nodeAt n p = Some m \<and> underlying x' = m
                 \<and> ReplaceCompilerNode (ident x) (nid m) \<in> set es"
    if at: "wrapperAt w p = Some x" for p x
  proof -
    from handleNode_success_path [OF ok at] obtain x' m es' where
      x': "wrapperAt w' p = Some x'" "ident x' = ident x" "getKind x' = getKind x"
        "nodeAt n p = Some m" "underlying x' = m"
        "calls f' = calls f @ es'" "ReplaceCompilerNode (ident x) (nid m) \<in> set es'"
      by blast
    from x'(6) es have "es' = es" by simp
    with x' show ?thesis by blast
  qed
  with ok es handleNode_success_last(1) [OF ok] show ?thesis by blast
qed

theorem identity_preservation_witness:
  "sameShape (underlying wrappedFile) newFile \<and> wrapsItsTree wrappedFile
   \<and> wrapperAt wrappedFile [0, 1]
       = Some (WrapperNode 3 (TsNode 12 Block [TsNode 14 VariableStatement []]) [])
   \<and> wrapperAt wrappedFile [0, 0] = None
   \<and> (\<exists>f' w' es. handleNode startFactory wrappedFile (Some newFile) = (None, f', w')
        \<and> calls f' = calls startFactory @ es
        \<and> registry f' (nid newFile) = Some (ident wrappedFile)
        \<and> (\<forall>p x. wrapperAt wrappedFile p = Some x \<longrightarrow>
             (\<exists>x' m. wrapperAt w' p = Some x' \<and> ident x' = ident x \<and> getKind x' = getKind x
                   \<and> nodeAt newFile p = Some m \<and> underlying x' = m
                   \<and> ReplaceCompilerNode (ident x) (nid m) \<in> set es)))"
proof -
  have s: "sameShape (underlying wrappedFile) newFile" and t: "wrapsItsTree wrappedFile"
    by (simp_all add: wrappedFile_def newFile_def)
  have a: "wrapperAt wrappedFile [0, 1]
       = Some (WrapperNode 3 (TsNode 12 Block [TsNode 14 VariableStatement []]) [])"
    and b: "wrapperAt wrappedFile [0, 0] = None"
    by (simp_all add: wrappedFile_def slotAt_def)
  from identity_preservation [OF s t, of startFactory] s t a b show ?thesis by blast
qed

text \<open>
  C2 (kind mismatch fails closed). A call of \<open>handleNode\<close> whose wrapper node and new node
  differ in kind raises an \<open>InvalidOperationError\<close> whose message carries the name of the
  wrapper's kind and the name of the new node's kind, and nothing was done: the wrapper
  subtree, the registry and the journal of calls are what they were, so neither
  \<open>handleChildren\<close> (no dispatch) nor \<open>replaceCompilerNode\<close> was reached.
\<close>

theorem kind_mismatch_fails_closed:
  assumes "getKind currentNode \<noteq> kind newNode"
  shows "handleNode f currentNode (Some newNode) =
           (Some (InvalidOperationError
              (''Error replacing tree! Perhaps a syntax error was inserted (Current: '' @
               getSyntaxKindName (getKind currentNode) @ '' -- New: '' @
               getSyntaxKindName (kind newNode) @ '').'')),
            f, currentNode)"
  using assms by (simp add: handleNode.simps kindMismatch_def getKindName_def)

theorem kind_mismatch_fails_closed_witness:
  "getKind wrappedPair \<noteq> kind (TsNode 20 Block [TsNode 21 Block []])
   \<and> handleNode startFactory wrappedPair (Some (TsNode 20 Block [TsNode 21 Block []]))
     = (Some (InvalidOperationError
          ''Error replacing tree! Perhaps a syntax error was inserted (Current: SourceFile -- New: Block).''),
        startFactory, wrappedPair)"
  using kind_mismatch_fails_closed
    [of wrappedPair "TsNode 20 Block [TsNode 21 Block []]" startFactory]
  by (simp add: getKind_def wrappedPair_def)




text \<open>
  C4 (children before the rebind). A call of \<open>handleNode\<close> that passes the check of the
  kinds goes on as follows. When the wrapper has materialized children, \<open>handleChildren\<close>
  runs first and to its end, and leaves the wrapper bound to its old node; if it raised,
  the error is the result and the wrapper is not rebound; if not, \<open>replaceCompilerNode\<close>
  is applied to the state the children left, and it is the last call of the journal,
  after every call the children made. When the wrapper has no materialized children, the
  rebind is the only call made. (A call that fails the check does nothing at all.)
\<close>

theorem children_before_rebind:
  "(hasWrappedChildren currentNode \<longrightarrow>
      (\<exists>r1 f1 w1 es. handleChildren f currentNode newNode = (r1, f1, w1)
         \<and> underlying w1 = underlying currentNode
         \<and> calls f1 = calls f @ es
         \<and> handleNode f currentNode (Some newNode) =
             (if getKind currentNode \<noteq> kind newNode
              then (Some (kindMismatch currentNode newNode), f, currentNode)
              else case r1 of
                     Some e \<Rightarrow> (Some e, f1, w1)
                   | None \<Rightarrow>
                       (None,
                        \<lparr>registry = ((registry f1)(nid (underlying currentNode) := None))
                                       (nid newNode \<mapsto> ident currentNode),
                         calls = calls f @ es @
                           [ReplaceCompilerNode (ident currentNode) (nid newNode)]\<rparr>,
                        WrapperNode (ident currentNode) newNode (materialized w1)))))
   \<and> (\<not> hasWrappedChildren currentNode \<longrightarrow>
        handleNode f currentNode (Some newNode) =
          (if getKind currentNode \<noteq> kind newNode
           then (Some (kindMismatch currentNode newNode), f, currentNode)
           else (None,
                 \<lparr>registry = ((registry f)(nid (underlying currentNode) := None))
                                (nid newNode \<mapsto> ident currentNode),
                  calls = calls f @ [ReplaceCompilerNode (ident currentNode) (nid newNode)]\<rparr>,
                 WrapperNode (ident currentNode) newNode (materialized currentNode))))"
proof (intro conjI impI)
  assume has: "hasWrappedChildren currentNode"
  obtain r1 f1 w1 where hc: "handleChildren f currentNode newNode = (r1, f1, w1)"
    by (metis prod_cases3)
  from calls_grow(2) [of f currentNode newNode] hc obtain es where es: "calls f1 = calls f @ es"
    by auto
  from handleChildren_result [OF hc] have w1: "underlying w1 = underlying currentNode"
    "ident w1 = ident currentNode" "getKind w1 = getKind currentNode"
    by auto
  have "handleNode f currentNode (Some newNode) =
          (if getKind currentNode \<noteq> kind newNode
           then (Some (kindMismatch currentNode newNode), f, currentNode)
           else case r1 of
             Some e \<Rightarrow> (Some e, f1, w1)
           | None \<Rightarrow>
               (None,
                \<lparr>registry = ((registry f1)(nid (underlying currentNode) := None))
                               (nid newNode \<mapsto> ident currentNode),
                 calls = calls f @ es @ [ReplaceCompilerNode (ident currentNode) (nid newNode)]\<rparr>,
                WrapperNode (ident currentNode) newNode (materialized w1)))"
    using has hc es w1
    by (simp add: handleNode.simps replaceCompilerNode_result split: option.splits)
  with hc es w1(1) show "\<exists>r1 f1 w1 es. handleChildren f currentNode newNode = (r1, f1, w1)
         \<and> underlying w1 = underlying currentNode
         \<and> calls f1 = calls f @ es
         \<and> handleNode f currentNode (Some newNode) =
             (if getKind currentNode \<noteq> kind newNode
              then (Some (kindMismatch currentNode newNode), f, currentNode)
              else case r1 of
                     Some e \<Rightarrow> (Some e, f1, w1)
                   | None \<Rightarrow>
                       (None,
                        \<lparr>registry = ((registry f1)(nid (underlying currentNode) := None))
                                       (nid newNode \<mapsto> ident currentNode),
                         calls = calls f @ es @
                           [ReplaceCompilerNode (ident currentNode) (nid newNode)]\<rparr>,
                        WrapperNode (ident currentNode) newNode (materialized w1)))"
    by blast
next
  assume "\<not> hasWrappedChildren currentNode"
  then show "handleNode f currentNode (Some newNode) =
          (if getKind currentNode \<noteq> kind newNode
           then (Some (kindMismatch currentNode newNode), f, currentNode)
           else (None,
                 \<lparr>registry = ((registry f)(nid (underlying currentNode) := None))
                                (nid newNode \<mapsto> ident currentNode),
                  calls = calls f @ [ReplaceCompilerNode (ident currentNode) (nid newNode)]\<rparr>,
                 WrapperNode (ident currentNode) newNode (materialized currentNode)))"
    by (simp add: handleNode.simps replaceCompilerNode_result)
qed

theorem children_before_rebind_witness:
  "hasWrappedChildren wrappedFile
   \<and> (\<exists>r1 f1 w1 es. handleChildren startFactory wrappedFile newFile = (r1, f1, w1)
        \<and> underlying w1 = underlying wrappedFile
        \<and> calls f1 = calls startFactory @ es
        \<and> handleNode startFactory wrappedFile (Some newFile) =
            (case r1 of
               Some e \<Rightarrow> (Some e, f1, w1)
             | None \<Rightarrow>
                 (None,
                  \<lparr>registry = ((registry f1)(nid (underlying wrappedFile) := None))
                                 (nid newFile \<mapsto> ident wrappedFile),
                   calls = calls startFactory @ es @
                     [ReplaceCompilerNode (ident wrappedFile) (nid newFile)]\<rparr>,
                  WrapperNode (ident wrappedFile) newFile (materialized w1))))
   \<and> \<not> hasWrappedChildren (WrapperNode 3 (TsNode 12 Block [TsNode 14 VariableStatement []]) [])
   \<and> handleNode startFactory (WrapperNode 3 (TsNode 12 Block [TsNode 14 VariableStatement []]) [])
         (Some (TsNode 22 Block [TsNode 24 VariableStatement []]))
       = (None,
          \<lparr>registry = [10 \<mapsto> 1, 11 \<mapsto> 2, 12 \<mapsto> 3](12 := None, 22 \<mapsto> 3),
           calls = [ReplaceCompilerNode 3 22]\<rparr>,
          WrapperNode 3 (TsNode 22 Block [TsNode 24 VariableStatement []]) [])"
proof -
  have 1: "getKind wrappedFile = kind newFile" and 2: "hasWrappedChildren wrappedFile"
    by (simp_all add: wrappedFile_def newFile_def getKind_def hasWrappedChildren_def)
  have 3: "getKind (WrapperNode 3 (TsNode 12 Block [TsNode 14 VariableStatement []]) [])
      = kind (TsNode 22 Block [TsNode 24 VariableStatement []])"
    and 4: "\<not> hasWrappedChildren (WrapperNode 3 (TsNode 12 Block [TsNode 14 VariableStatement []]) [])"
    by (simp_all add: getKind_def hasWrappedChildren_def)
  from children_before_rebind [of wrappedFile startFactory newFile] 2
    children_before_rebind
      [of "WrapperNode 3 (TsNode 12 Block [TsNode 14 VariableStatement []]) []" startFactory
          "TsNode 22 Block [TsNode 24 VariableStatement []]"] 4 1 3
  show ?thesis by (simp add: startFactory_def)
qed

text \<open>
  C5 (unpaired children fail closed). Let the new node have more children than the node
  the wrapper is bound to, which has \<open>N\<close>, tracked or not. Then \<open>handleChildren\<close> never
  returns normally. When each dispatch of the loop returns without raising, every child
  that has a wrapper was dispatched against the new child at its position, the cursor
  stands after the first \<open>N\<close> new children with the surplus still before it, and
  \<open>handleChildren\<close> raises the \<open>Error\<close> "Should not have new children left over": the
  factory is the one the last dispatch left (nothing was registered for a surplus child)
  and the wrapper has the \<open>N\<close> places for its children (none was added).

  Both conditions are needed: that the dispatches return, and that the count is over
  all the children of the old node and not over the tracked ones. In \<open>wrappedPair\<close>
  against \<open>shiftedFile\<close> (two tracked children, three new ones) the first pair differs
  in kind: the loop ends in the first dispatch with the \<open>InvalidOperationError\<close> of
  \<open>handleNode\<close>, the second pair is never dispatched and the check for children left
  over is not reached. In \<open>wrappedFirst\<close> against \<open>reparsedPair\<close> (one tracked child
  of two, two new ones) the untracked class holds its place, nothing is left over and
  \<open>handleChildren\<close> returns normally.
\<close>

theorem leftover_children_fail_closed:
  assumes "length (children (underlying w)) < length (children n)"
  shows "fst (handleChildren f w n) \<noteq> None
     \<and> (handleChildrenLoop f (currentChildren w n) (toIterator (children n)) = (None, f1, cs1, it1)
        \<longrightarrow> handleChildren f w n =
              (Some (Error ''Error replacing tree: Should not have new children left over.''),
               f1, withChildren w cs1)
          \<and> it1 = drop (length (children (underlying w))) (children n) \<and> it1 \<noteq> []
          \<and> length cs1 = length (children (underlying w))
          \<and> (\<forall>i < length (children (underlying w)).
                case slotAt (materialized w) i of
                  None \<Rightarrow> cs1 ! i = None
                | Some c \<Rightarrow>
                    (\<exists>g g' c1. handleNode g c (Some (children n ! i)) = (None, g', c1)
                        \<and> cs1 ! i = Some c1)))"
proof (intro conjI impI allI)
  let ?ws = "pairWrappers (children (underlying w)) (materialized w)"
  obtain r f' w' where hc: "handleChildren f w n = (r, f', w')"
    by (metis prod_cases3)
  from handleChildren_result [OF hc] obtain r1 cs it where
    loop: "handleChildrenLoop f ?ws (children n) = (r1, f', cs, it)"
    and r: "r = (case r1 of Some e \<Rightarrow> Some e | None \<Rightarrow> if it = [] then None else Some leftOver)"
    by blast
  have "r \<noteq> None"
  proof (cases r1)
    case None
    with loop loop_cursor [of f ?ws "children n" f' cs it] assms
    have "it \<noteq> []" by auto
    with r None show ?thesis by simp
  next
    case (Some e)
    with r show ?thesis by simp
  qed
  with hc show "fst (handleChildren f w n) \<noteq> None" by simp
next
  let ?ws = "pairWrappers (children (underlying w)) (materialized w)"
  assume "handleChildrenLoop f (currentChildren w n) (toIterator (children n)) = (None, f1, cs1, it1)"
  then have loop: "handleChildrenLoop f ?ws (children n) = (None, f1, cs1, it1)"
    by (simp add: toIterator_def getChildrenFast_def)
  from loop_cursor [OF loop] show it1: "it1 = drop (length (children (underlying w))) (children n)"
    by simp
  with assms show ne: "it1 \<noteq> []" by simp
  from loop_length [OF loop] show "length cs1 = length (children (underlying w))" by simp
  from loop ne show "handleChildren f w n =
              (Some (Error ''Error replacing tree: Should not have new children left over.''),
               f1, withChildren w cs1)"
    by (simp add: handleChildren.simps getChildrenFast_def toIterator_def nextDone_def leftOver_def)
  show "case slotAt (materialized w) i of
                  None \<Rightarrow> cs1 ! i = None
                | Some c \<Rightarrow>
                    (\<exists>g g' c1. handleNode g c (Some (children n ! i)) = (None, g', c1)
                        \<and> cs1 ! i = Some c1)"
    if i: "i < length (children (underlying w))" for i
  proof (cases "slotAt (materialized w) i")
    case None
    with i have "snd (?ws ! i) = None" by (simp add: snd_pairWrappers)
    from loop_nth_unwrapped [OF loop _ this] i None show ?thesis by simp
  next
    case (Some c)
    with i have "snd (?ws ! i) = Some c" by (simp add: snd_pairWrappers)
    from loop_nth [OF loop _ this] i obtain g g' c1 where
      "handleNode g c (Some (children n ! i)) = (None, g', c1)" "cs1 ! i = Some c1"
      by auto
    with Some show ?thesis by auto
  qed
qed

theorem leftover_children_fail_closed_witness:
  "length (children (underlying wrappedFirst)) < length (children grownFile)
   \<and> fst (handleChildren startFactory wrappedFirst grownFile) \<noteq> None
   \<and> handleChildrenLoop startFactory (currentChildren wrappedFirst grownFile)
        (toIterator (children grownFile))
       = (None, afterFirst\<lparr>calls := calls afterFirst @ [HandleForValues 12 (Some 22)]\<rparr>,
          [Some (WrapperNode 2 (TsNode 21 FunctionDeclaration []) []), None],
          [TsNode 23 EnumDeclaration []])
   \<and> handleChildren startFactory wrappedFirst grownFile =
       (Some (Error ''Error replacing tree: Should not have new children left over.''),
        afterFirst\<lparr>calls := calls afterFirst @ [HandleForValues 12 (Some 22)]\<rparr>,
        withChildren wrappedFirst
          [Some (WrapperNode 2 (TsNode 21 FunctionDeclaration []) []), None])"
proof -
  have len: "length (children (underlying wrappedFirst)) < length (children grownFile)"
    by (simp add: wrappedFirst_def grownFile_def)
  have loop: "handleChildrenLoop startFactory (currentChildren wrappedFirst grownFile)
        (toIterator (children grownFile))
       = (None, afterFirst\<lparr>calls := calls afterFirst @ [HandleForValues 12 (Some 22)]\<rparr>,
          [Some (WrapperNode 2 (TsNode 21 FunctionDeclaration []) []), None],
          [TsNode 23 EnumDeclaration []])"
    by (simp add: startFactory_def wrappedFirst_def grownFile_def afterFirst_def run_defs)
  from leftover_children_fail_closed [OF len, of startFactory
      "afterFirst\<lparr>calls := calls afterFirst @ [HandleForValues 12 (Some 22)]\<rparr>"
      "[Some (WrapperNode 2 (TsNode 21 FunctionDeclaration []) []), None]"
      "[TsNode 23 EnumDeclaration []]"]
    len loop
  show ?thesis by blast
qed

theorem leftover_children_counterexample:
  "length (tracked wrappedPair) < length (children shiftedFile)
   \<and> handleChildren startFactory wrappedPair shiftedFile =
       (Some (InvalidOperationError
          ''Error replacing tree! Perhaps a syntax error was inserted (Current: FunctionDeclaration -- New: EnumDeclaration).''),
        \<lparr>registry = [10 \<mapsto> 1, 11 \<mapsto> 2, 12 \<mapsto> 3], calls = [HandleForValues 11 (Some 21)]\<rparr>,
        wrappedPair)
   \<and> length (tracked wrappedFirst) < length (children reparsedPair)
   \<and> handleChildren startFactory wrappedFirst reparsedPair =
       (None,
        \<lparr>registry = [10 \<mapsto> 1, 11 \<mapsto> 2, 12 \<mapsto> 3](11 := None, 21 \<mapsto> 2),
         calls = [HandleForValues 11 (Some 21), ReplaceCompilerNode 2 21,
                  HandleForValues 12 (Some 22)]\<rparr>,
        WrapperNode 1
          (TsNode 10 SourceFile [TsNode 11 FunctionDeclaration [], TsNode 12 ClassDeclaration []])
          [Some (WrapperNode 2 (TsNode 21 FunctionDeclaration []) []), None])"
  by (simp add: wrappedPair_def wrappedFirst_def shiftedFile_def reparsedPair_def
        startFactory_def tracked_def run_defs kindMismatch_def getKindName_def)

text \<open>
  C6 (no rollback). A pass over the children of a wrapper can raise in two places.
  First, in the dispatch of the \<open>k\<close>-th child, the first \<open>k\<close> iterations having
  completed: \<open>handleNode\<close> raises that error and returns the state as the failing
  dispatch left it; of the first \<open>k\<close> children, those that have a wrapper have the same
  object, bound to the new child at its position; the failed child has a wrapper, the
  same object, still bound to its old node; the siblings after it are untouched; the
  parent is still bound to its old node. When the failure is a kind mismatch of the
  \<open>k\<close>-th pair itself, the failed child is unchanged and the registry is the one the
  first \<open>k\<close> iterations left. Second, at the check for new children left over, all
  iterations having completed: \<open>handleNode\<close> raises that error and returns the state as
  the last dispatch left it; every child that has a wrapper has the same object, bound to
  the new child at its position; the parent is still bound to its old node.
\<close>

theorem no_rollback:
  "(getKind w = kind n \<and> k < length (currentChildren w n)
      \<and> handleChildrenLoop f (take k (currentChildren w n)) (toIterator (children n))
          = (None, fk, wsk, itk)
      \<and> handleForValues handleNode fk (currentChildren w n ! k) (nextValue itk) = (Some e, f', c')
    \<longrightarrow> handleNode f w (Some n) =
           (Some e, f',
            WrapperNode (ident w) (underlying w)
              (wsk @ c' # map snd (drop (Suc k) (currentChildren w n))))
      \<and> (\<forall>i < k. case slotAt (materialized w) i of
                    None \<Rightarrow> wsk ! i = None
                  | Some x \<Rightarrow>
                      i < length (children n)
                      \<and> (\<exists>x'. wsk ! i = Some x' \<and> underlying x' = children n ! i
                             \<and> ident x' = ident x))
      \<and> (\<exists>c x'. slotAt (materialized w) k = Some c \<and> c' = Some x'
             \<and> underlying x' = underlying c \<and> ident x' = ident c)
      \<and> (\<forall>j < length (currentChildren w n).
            snd (currentChildren w n ! j) = slotAt (materialized w) j)
      \<and> (\<forall>c. slotAt (materialized w) k = Some c
              \<and> k < length (children n) \<and> getKind c \<noteq> kind (children n ! k)
            \<longrightarrow> c' = Some c \<and> registry f' = registry fk))
   \<and> (getKind w = kind n \<and> hasWrappedChildren w
      \<and> handleChildrenLoop f (currentChildren w n) (toIterator (children n))
          = (None, f1, cs1, it1)
      \<and> it1 \<noteq> []
    \<longrightarrow> handleNode f w (Some n) =
           (Some (Error ''Error replacing tree: Should not have new children left over.''),
            f1, WrapperNode (ident w) (underlying w) cs1)
      \<and> (\<forall>i < length (children (underlying w)).
            case slotAt (materialized w) i of
              None \<Rightarrow> cs1 ! i = None
            | Some x \<Rightarrow>
                i < length (children n)
                \<and> (\<exists>x'. cs1 ! i = Some x' \<and> underlying x' = children n ! i
                       \<and> ident x' = ident x)))"
proof (intro conjI impI)
  let ?ws = "pairWrappers (children (underlying w)) (materialized w)"
  assume a: "getKind w = kind n \<and> k < length (currentChildren w n)
      \<and> handleChildrenLoop f (take k (currentChildren w n)) (toIterator (children n))
          = (None, fk, wsk, itk)
      \<and> handleForValues handleNode fk (currentChildren w n ! k) (nextValue itk) = (Some e, f', c')"
  then have kinds: "getKind w = kind n" and k: "k < length ?ws"
    and pre: "handleChildrenLoop f (take k ?ws) (children n) = (None, fk, wsk, itk)"
    and fails: "handleForValues handleNode fk (?ws ! k) (nextValue itk) = (Some e, f', c')"
    by (simp_all add: toIterator_def getChildrenFast_def)
  from k have kc: "k < length (children (underlying w))" by simp
  have slots: "snd (?ws ! j) = slotAt (materialized w) j" if "j < length ?ws" for j
    using that by (simp add: snd_pairWrappers)
  then show "\<forall>j < length (currentChildren w n).
            snd (currentChildren w n ! j) = slotAt (materialized w) j"
    by (simp add: getChildrenFast_def)
  from fails obtain c where wrapped: "snd (?ws ! k) = Some c"
    by (cases "snd (?ws ! k)") (auto simp: handleForValues_unwrapped)
  with slots [OF k] have slot: "slotAt (materialized w) k = Some c" by simp
  then have "k < length (materialized w)" and "materialized w ! k = Some c"
    by (auto simp: slotAt_def split: if_splits)
  then have "Some c \<in> set (materialized w)"
    by (metis nth_mem)
  then have has: "hasWrappedChildren w"
    by (auto simp: hasWrappedChildren_def list_ex_iff)
  from loop_step(2) [OF k pre] fails
  have "handleChildrenLoop f ?ws (children n) =
          (Some e, f', wsk @ c' # map snd (drop (Suc k) ?ws), advance itk)"
    by simp
  with kinds has show "handleNode f w (Some n) =
           (Some e, f',
            WrapperNode (ident w) (underlying w)
              (wsk @ c' # map snd (drop (Suc k) (currentChildren w n))))"
    by (simp add: handleNode_eq withChildren_def getChildrenFast_def)
  from fails wrapped obtain g x' where
    failed: "handleNode g c (nextValue itk) = (Some e, f', x')" and c': "c' = Some x'"
    by (auto simp: handleForValues_wrapped split: prod.splits)
  from handleNode_top(3) [OF failed] handleNode_top(1) [OF failed] slot c'
  show "\<exists>c x'. slotAt (materialized w) k = Some c \<and> c' = Some x'
             \<and> underlying x' = underlying c \<and> ident x' = ident c"
    by simp
  show "\<forall>i < k. case slotAt (materialized w) i of
                    None \<Rightarrow> wsk ! i = None
                  | Some x \<Rightarrow>
                      i < length (children n)
                      \<and> (\<exists>x'. wsk ! i = Some x' \<and> underlying x' = children n ! i
                             \<and> ident x' = ident x)"
  proof (intro allI impI)
    fix i assume i: "i < k"
    with k have il: "i < length (take k ?ws)" and iw: "i < length ?ws" by simp_all
    from i have nth: "take k ?ws ! i = ?ws ! i" by simp
    show "case slotAt (materialized w) i of
                    None \<Rightarrow> wsk ! i = None
                  | Some x \<Rightarrow>
                      i < length (children n)
                      \<and> (\<exists>x'. wsk ! i = Some x' \<and> underlying x' = children n ! i
                             \<and> ident x' = ident x)"
    proof (cases "slotAt (materialized w) i")
      case None
      with slots [OF iw] nth have "snd (take k ?ws ! i) = None" by simp
      from loop_nth_unwrapped [OF pre il this] None show ?thesis by simp
    next
      case (Some x)
      with slots [OF iw] nth have "snd (take k ?ws ! i) = Some x" by simp
      from loop_nth [OF pre il this] obtain g1 g2 x' where
        ic: "i < length (children n)" and
        hn: "handleNode g1 x (Some (children n ! i)) = (None, g2, x')" and
        at: "wsk ! i = Some x'"
        by blast
      from ic at handleNode_top(4) [OF hn] handleNode_top(1) [OF hn] Some
      show ?thesis by simp
    qed
  qed
  show "\<forall>c. slotAt (materialized w) k = Some c
              \<and> k < length (children n) \<and> getKind c \<noteq> kind (children n ! k)
            \<longrightarrow> c' = Some c \<and> registry f' = registry fk"
  proof (intro allI impI)
    fix d
    assume mm: "slotAt (materialized w) k = Some d
              \<and> k < length (children n) \<and> getKind d \<noteq> kind (children n ! k)"
    with slot have d: "d = c" by simp
    from loop_step(1) [OF k pre] have "itk = drop k (children n)" .
    with mm have nv: "nextValue itk = Some (children n ! k)"
      by (simp add: nextValue_drop)
    from fails wrapped mm nv d show "c' = Some d \<and> registry f' = registry fk"
      by (auto simp: handleForValues_wrapped handleNode.simps)
  qed
next
  let ?ws = "pairWrappers (children (underlying w)) (materialized w)"
  assume a: "getKind w = kind n \<and> hasWrappedChildren w
      \<and> handleChildrenLoop f (currentChildren w n) (toIterator (children n))
          = (None, f1, cs1, it1)
      \<and> it1 \<noteq> []"
  then have kinds: "getKind w = kind n" and has: "hasWrappedChildren w"
    and loop: "handleChildrenLoop f ?ws (children n) = (None, f1, cs1, it1)"
    and left: "it1 \<noteq> []"
    by (simp_all add: toIterator_def getChildrenFast_def)
  from kinds has loop left show "handleNode f w (Some n) =
           (Some (Error ''Error replacing tree: Should not have new children left over.''),
            f1, WrapperNode (ident w) (underlying w) cs1)"
    by (simp add: handleNode_eq withChildren_def leftOver_def)
  show "\<forall>i < length (children (underlying w)).
            case slotAt (materialized w) i of
              None \<Rightarrow> cs1 ! i = None
            | Some x \<Rightarrow>
                i < length (children n)
                \<and> (\<exists>x'. cs1 ! i = Some x' \<and> underlying x' = children n ! i
                       \<and> ident x' = ident x)"
  proof (intro allI impI)
    fix i assume i: "i < length (children (underlying w))"
    then have iw: "i < length ?ws" by simp
    show "case slotAt (materialized w) i of
              None \<Rightarrow> cs1 ! i = None
            | Some x \<Rightarrow>
                i < length (children n)
                \<and> (\<exists>x'. cs1 ! i = Some x' \<and> underlying x' = children n ! i
                       \<and> ident x' = ident x)"
    proof (cases "slotAt (materialized w) i")
      case None
      with i have "snd (?ws ! i) = None" by (simp add: snd_pairWrappers)
      from loop_nth_unwrapped [OF loop iw this] None show ?thesis by simp
    next
      case (Some x)
      with i have "snd (?ws ! i) = Some x" by (simp add: snd_pairWrappers)
      from loop_nth [OF loop iw this] obtain g1 g2 x' where
        ic: "i < length (children n)" and
        hn: "handleNode g1 x (Some (children n ! i)) = (None, g2, x')" and
        at: "cs1 ! i = Some x'"
        by blast
      from ic at handleNode_top(4) [OF hn] handleNode_top(1) [OF hn] Some
      show ?thesis by simp
    qed
  qed
qed

theorem no_rollback_witness:
  "getKind wrappedPair = kind editedFile \<and> 1 < length (currentChildren wrappedPair editedFile)
   \<and> handleChildrenLoop startFactory (take 1 (currentChildren wrappedPair editedFile))
        (toIterator (children editedFile))
       = (None, afterFirst, [Some (WrapperNode 2 (TsNode 21 FunctionDeclaration []) [])],
          [TsNode 22 EnumDeclaration []])
   \<and> handleForValues handleNode afterFirst (currentChildren wrappedPair editedFile ! 1)
        (nextValue [TsNode 22 EnumDeclaration []])
       = (Some (InvalidOperationError
            ''Error replacing tree! Perhaps a syntax error was inserted (Current: ClassDeclaration -- New: EnumDeclaration).''),
          afterFirst\<lparr>calls := calls afterFirst @ [HandleForValues 12 (Some 22)]\<rparr>,
          Some (WrapperNode 3 (TsNode 12 ClassDeclaration []) []))
   \<and> handleNode startFactory wrappedPair (Some editedFile)
       = (Some (InvalidOperationError
            ''Error replacing tree! Perhaps a syntax error was inserted (Current: ClassDeclaration -- New: EnumDeclaration).''),
          afterFirst\<lparr>calls := calls afterFirst @ [HandleForValues 12 (Some 22)]\<rparr>,
          WrapperNode 1 (underlying wrappedPair)
            [Some (WrapperNode 2 (TsNode 21 FunctionDeclaration []) []),
             Some (WrapperNode 3 (TsNode 12 ClassDeclaration []) [])])
   \<and> getKind wrappedFirst = kind grownFile \<and> hasWrappedChildren wrappedFirst
   \<and> handleChildrenLoop startFactory (currentChildren wrappedFirst grownFile)
        (toIterator (children grownFile))
       = (None, afterFirst\<lparr>calls := calls afterFirst @ [HandleForValues 12 (Some 22)]\<rparr>,
          [Some (WrapperNode 2 (TsNode 21 FunctionDeclaration []) []), None],
          [TsNode 23 EnumDeclaration []])
   \<and> handleNode startFactory wrappedFirst (Some grownFile)
       = (Some (Error ''Error replacing tree: Should not have new children left over.''),
          afterFirst\<lparr>calls := calls afterFirst @ [HandleForValues 12 (Some 22)]\<rparr>,
          WrapperNode 1 (underlying wrappedFirst)
            [Some (WrapperNode 2 (TsNode 21 FunctionDeclaration []) []), None])"
proof -
  have 1: "getKind wrappedPair = kind editedFile"
    and 2: "1 < length (currentChildren wrappedPair editedFile)"
    by (simp_all add: wrappedPair_def editedFile_def getKind_def getChildrenFast_def)
  have 3: "handleChildrenLoop startFactory (take 1 (currentChildren wrappedPair editedFile))
        (toIterator (children editedFile))
       = (None, afterFirst, [Some (WrapperNode 2 (TsNode 21 FunctionDeclaration []) [])],
          [TsNode 22 EnumDeclaration []])"
    by (simp add: wrappedPair_def editedFile_def startFactory_def afterFirst_def run_defs)
  have 4: "handleForValues handleNode afterFirst (currentChildren wrappedPair editedFile ! 1)
        (nextValue [TsNode 22 EnumDeclaration []])
       = (Some (InvalidOperationError
            ''Error replacing tree! Perhaps a syntax error was inserted (Current: ClassDeclaration -- New: EnumDeclaration).''),
          afterFirst\<lparr>calls := calls afterFirst @ [HandleForValues 12 (Some 22)]\<rparr>,
          Some (WrapperNode 3 (TsNode 12 ClassDeclaration []) []))"
    by (simp add: wrappedPair_def afterFirst_def run_defs kindMismatch_def getKindName_def)
  have 5: "getKind wrappedFirst = kind grownFile" and 6: "hasWrappedChildren wrappedFirst"
    by (simp_all add: wrappedFirst_def grownFile_def getKind_def hasWrappedChildren_def)
  have 7: "handleChildrenLoop startFactory (currentChildren wrappedFirst grownFile)
        (toIterator (children grownFile))
       = (None, afterFirst\<lparr>calls := calls afterFirst @ [HandleForValues 12 (Some 22)]\<rparr>,
          [Some (WrapperNode 2 (TsNode 21 FunctionDeclaration []) []), None],
          [TsNode 23 EnumDeclaration []])"
    by (simp add: wrappedFirst_def grownFile_def startFactory_def afterFirst_def run_defs)
  have 8: "[TsNode 23 EnumDeclaration []] \<noteq> []" by simp
  note a = no_rollback [THEN conjunct1, rule_format, OF conjI, OF 1 conjI, OF 2 conjI, OF 3 4,
      THEN conjunct1]
  note b = no_rollback [THEN conjunct2, rule_format, OF conjI, OF 5 conjI, OF 6 conjI, OF 7 8,
      THEN conjunct1]
  from a b 1 2 3 4 5 6 7 show ?thesis
    by (simp add: wrappedPair_def wrappedFirst_def getChildrenFast_def)
qed

text \<open>
  C7 (no validation before the dispatch). Let the loop of \<open>handleChildren\<close> have completed
  its first \<open>k\<close> iterations, and let the wrapper of the \<open>k\<close>-th child and the \<open>k\<close>-th
  new child differ in kind. The loop hands the pair to \<open>handleForValues\<close> all the same
  (the call is in the journal), and the error the loop ends with is the
  \<open>InvalidOperationError\<close> that \<open>handleNode\<close> raises for this pair in its own check;
  nothing else was done to the child.
\<close>

theorem no_validation_before_dispatch:
  assumes "k < length ws" and "k < length it"
    and "handleChildrenLoop f (take k ws) it = (None, fk, wsk, itk)"
    and "snd (ws ! k) = Some c"
    and "getKind c \<noteq> kind (it ! k)"
  shows "handleChildrenLoop f ws it =
           (Some (kindMismatch c (it ! k)),
            fk\<lparr>calls := calls fk @ [HandleForValues (nid (fst (ws ! k))) (Some (nid (it ! k)))]\<rparr>,
            wsk @ map snd (drop k ws), drop (Suc k) it)
     \<and> (\<forall>g. handleNode g c (Some (it ! k)) = (Some (kindMismatch c (it ! k)), g, c))
     \<and> (\<exists>msg. kindMismatch c (it ! k) = InvalidOperationError msg)"
proof (intro conjI allI)
  show hn: "handleNode g c (Some (it ! k)) = (Some (kindMismatch c (it ! k)), g, c)"
    for g
    using assms(5) by (simp add: handleNode.simps)
  from loop_step(1) [OF assms(1,3)] have itk: "itk = drop k it" .
  with assms(2) have nv: "nextValue itk = Some (it ! k)"
    by (simp add: nextValue_drop)
  from assms(1) have "drop k ws = ws ! k # drop (Suc k) ws"
    by (simp add: Cons_nth_drop_Suc)
  with loop_step(2) [OF assms(1,3)] nv hn itk assms(4)
  show "handleChildrenLoop f ws it =
           (Some (kindMismatch c (it ! k)),
            fk\<lparr>calls := calls fk @ [HandleForValues (nid (fst (ws ! k))) (Some (nid (it ! k)))]\<rparr>,
            wsk @ map snd (drop k ws), drop (Suc k) it)"
    by (simp add: handleForValues_wrapped advance_drop)
  show "\<exists>msg. kindMismatch c (it ! k) = InvalidOperationError msg"
    by (simp add: kindMismatch_def)
qed

theorem no_validation_before_dispatch_witness:
  "(1::nat) < length (currentChildren wrappedPair editedFile)
   \<and> (1::nat) < length (children editedFile)
   \<and> handleChildrenLoop startFactory (take 1 (currentChildren wrappedPair editedFile))
        (children editedFile)
       = (None, afterFirst, [Some (WrapperNode 2 (TsNode 21 FunctionDeclaration []) [])],
          [TsNode 22 EnumDeclaration []])
   \<and> snd (currentChildren wrappedPair editedFile ! 1)
       = Some (WrapperNode 3 (TsNode 12 ClassDeclaration []) [])
   \<and> getKind (WrapperNode 3 (TsNode 12 ClassDeclaration []) []) \<noteq> kind (children editedFile ! 1)
   \<and> handleChildrenLoop startFactory (currentChildren wrappedPair editedFile) (children editedFile)
       = (Some (kindMismatch (WrapperNode 3 (TsNode 12 ClassDeclaration []) [])
                  (TsNode 22 EnumDeclaration [])),
          afterFirst\<lparr>calls := calls afterFirst @ [HandleForValues 12 (Some 22)]\<rparr>,
          [Some (WrapperNode 2 (TsNode 21 FunctionDeclaration []) []),
           Some (WrapperNode 3 (TsNode 12 ClassDeclaration []) [])],
          [])"
proof -
  have 1: "1 < length (currentChildren wrappedPair editedFile)"
    and 2: "1 < length (children editedFile)"
    and 4: "snd (currentChildren wrappedPair editedFile ! 1)
       = Some (WrapperNode 3 (TsNode 12 ClassDeclaration []) [])"
    and 5: "getKind (WrapperNode 3 (TsNode 12 ClassDeclaration []) [])
        \<noteq> kind (children editedFile ! 1)"
    by (simp_all add: wrappedPair_def editedFile_def getKind_def getChildrenFast_def)
  have 3: "handleChildrenLoop startFactory (take 1 (currentChildren wrappedPair editedFile))
        (children editedFile)
       = (None, afterFirst, [Some (WrapperNode 2 (TsNode 21 FunctionDeclaration []) [])],
          [TsNode 22 EnumDeclaration []])"
    by (simp add: wrappedPair_def editedFile_def startFactory_def afterFirst_def run_defs)
  from no_validation_before_dispatch [OF 1 2 3 4 5] 1 2 3 4 5 show ?thesis
    by (simp add: wrappedPair_def editedFile_def getChildrenFast_def)
qed

section \<open>Properties of the getters\<close>

text \<open>
  C8 (\<open>getBody\<close>). For a source file \<open>getBody\<close> returns the wrapper itself and does
  nothing else. For a namespace declaration with a body or a function declaration with a
  body it returns what the factory gives for the body node, its wrapper. For a function
  declaration without a body it raises the \<open>NotImplementedError\<close> "Function declaration
  has no body.", and for every other kind of node it raises a \<open>NotImplementedError\<close>.
  Whatever the node, a call raises, or returns the wrapper itself, or returns what the
  factory gives for a body node that exists: the result is never \<open>undefined\<close>.

  The namespace branch needs the body: unlike the function branch it has no check for
  an absent one and hands \<open>this.node.body\<close> to the factory as it is. For a module
  declaration without a body the call returns no wrapper of a body and raises no
  \<open>NotImplementedError\<close>: the factory is given \<open>undefined\<close>.
\<close>

theorem getBody_cases:
  "(declKind (node this) = SourceFile \<longrightarrow> getBody wrap this s = (Inr (self this), s))
   \<and> (declKind (node this) \<in> {ModuleDeclaration, FunctionDeclaration} \<and> body (node this) = Some b
        \<longrightarrow> getBody wrap this s = wrap b s)
   \<and> (declKind (node this) = FunctionDeclaration \<and> body (node this) = None
        \<longrightarrow> getBody wrap this s = (Inl (NotImplementedError ''Function declaration has no body.''), s))
   \<and> (declKind (node this) \<notin> {SourceFile, ModuleDeclaration, FunctionDeclaration}
        \<longrightarrow> (\<exists>msg. getBody wrap this s = (Inl (NotImplementedError msg), s)))
   \<and> ((\<exists>e. getBody wrap this s = (Inl e, s))
        \<or> getBody wrap this s = (Inr (self this), s)
        \<or> (\<exists>b. body (node this) = Some b \<and> getBody wrap this s = wrap b s))"
  by (auto simp: getBody_def isSourceFile_def isNamespaceDeclaration_def isFunctionDeclaration_def
        getNodeFromCompilerNode_def getNotImplementedError_def)

theorem getBody_cases_witness:
  "getBody (\<lambda>n s. (Inr (nid n), Suc s)) \<lparr>self = 1, node = \<lparr>declKind = SourceFile, body = None\<rparr>\<rparr> (0::nat)
     = (Inr (1::nat), 0)
   \<and> getBody (\<lambda>n s. (Inr (nid n), Suc s))
       \<lparr>self = 2, node = \<lparr>declKind = ModuleDeclaration, body = Some (TsNode 7 Block [])\<rparr>\<rparr> (0::nat)
     = (Inr (7::nat), 1)
   \<and> getBody (\<lambda>n s. (Inr (nid n), Suc s))
       \<lparr>self = 3, node = \<lparr>declKind = FunctionDeclaration, body = Some (TsNode 8 Block [])\<rparr>\<rparr> (0::nat)
     = (Inr (8::nat), 1)
   \<and> getBody (\<lambda>n s. (Inr (nid n), Suc s))
       \<lparr>self = 4, node = \<lparr>declKind = FunctionDeclaration, body = None\<rparr>\<rparr> (0::nat)
     = (Inl (NotImplementedError ''Function declaration has no body.''), 0)
   \<and> (\<exists>msg. getBody (\<lambda>n s. (Inr (nid n), Suc s))
       \<lparr>self = 5, node = \<lparr>declKind = ClassDeclaration, body = None\<rparr>\<rparr> (0::nat)
     = (Inl (NotImplementedError msg), 0))"
  using
    getBody_cases [where this = "\<lparr>self = 1::nat, node = \<lparr>declKind = SourceFile, body = None\<rparr>\<rparr>"
      and wrap = "\<lambda>n s. (Inr (nid n), Suc s)" and s = "0::nat"]
    getBody_cases [where this = "\<lparr>self = 2::nat, node = \<lparr>declKind = ModuleDeclaration, body = Some (TsNode 7 Block [])\<rparr>\<rparr>"
      and wrap = "\<lambda>n s. (Inr (nid n), Suc s)" and s = "0::nat" and b = "TsNode 7 Block []"]
    getBody_cases [where this = "\<lparr>self = 3::nat, node = \<lparr>declKind = FunctionDeclaration, body = Some (TsNode 8 Block [])\<rparr>\<rparr>"
      and wrap = "\<lambda>n s. (Inr (nid n), Suc s)" and s = "0::nat" and b = "TsNode 8 Block []"]
    getBody_cases [where this = "\<lparr>self = 4::nat, node = \<lparr>declKind = FunctionDeclaration, body = None\<rparr>\<rparr>"
      and wrap = "\<lambda>n s. (Inr (nid n), Suc s)" and s = "0::nat"]
    getBody_cases [where this = "\<lparr>self = 5::nat, node = \<lparr>declKind = ClassDeclaration, body = None\<rparr>\<rparr>"
      and wrap = "\<lambda>n s. (Inr (nid n), Suc s)" and s = "0::nat"]
  by simp

theorem getBody_cases_counterexample:
  "getBody wrapByIdentity \<lparr>self = 6, node = \<lparr>declKind = ModuleDeclaration, body = None\<rparr>\<rparr> 0
     = (Inl TypeError, 0)"
  by (simp add: getBody_def isSourceFile_def isNamespaceDeclaration_def
        getNodeFromCompilerNode_def)

text \<open>
  C9 (\<open>IfStatement\<close>). \<open>getElseStatement\<close> returns \<open>undefined\<close> exactly when the
  underlying if statement has no else clause, and then does nothing else; otherwise its
  result is what the factory gives for the else statement, its wrapper.
  \<open>getExpression\<close> and \<open>getThenStatement\<close> return what the factory gives for the
  expression and for the then statement: a wrapper whenever the factory has one for every
  node, and \<open>undefined\<close> never.
\<close>

theorem else_statement_optional:
  "(fst (getElseStatement wrap this s) = Inr None \<longleftrightarrow> elseStatement (compilerNode this) = None)
   \<and> (elseStatement (compilerNode this) = None \<longrightarrow> getElseStatement wrap this s = (Inr None, s))
   \<and> (\<forall>e. elseStatement (compilerNode this) = Some e \<longrightarrow>
         getElseStatement wrap this s = (map_sum id Some (fst (wrap e s)), snd (wrap e s)))
   \<and> getExpression wrap this s = wrap (expression (compilerNode this)) s
   \<and> getThenStatement wrap this s = wrap (thenStatement (compilerNode this)) s
   \<and> ((\<forall>n t. \<exists>w. fst (wrap n t) = Inr w) \<longrightarrow>
        (\<exists>w. fst (getExpression wrap this s) = Inr w)
      \<and> (\<exists>w. fst (getThenStatement wrap this s) = Inr w))"
  by (auto simp: getElseStatement_def getNodeFromCompilerNodeIfExists_def getExpression_def
        getThenStatement_def split: option.splits prod.splits sum.splits)

theorem else_statement_optional_witness:
  "getElseStatement (\<lambda>n s. (Inr (nid n), Suc s))
       \<lparr>compilerNode = \<lparr>expression = TsNode 1 Block [], thenStatement = TsNode 2 Block [],
          elseStatement = None\<rparr>\<rparr> (0::nat)
     = (Inr None, 0)
   \<and> getElseStatement (\<lambda>n s. (Inr (nid n), Suc s))
       \<lparr>compilerNode = \<lparr>expression = TsNode 1 Block [], thenStatement = TsNode 2 Block [],
          elseStatement = Some (TsNode 3 Block [])\<rparr>\<rparr> (0::nat)
     = (Inr (Some 3), 1)
   \<and> getExpression (\<lambda>n s. (Inr (nid n), Suc s))
       \<lparr>compilerNode = \<lparr>expression = TsNode 1 Block [], thenStatement = TsNode 2 Block [],
          elseStatement = None\<rparr>\<rparr> (0::nat)
     = (Inr 1, 1)
   \<and> getThenStatement (\<lambda>n s. (Inr (nid n), Suc s))
       \<lparr>compilerNode = \<lparr>expression = TsNode 1 Block [], thenStatement = TsNode 2 Block [],
          elseStatement = None\<rparr>\<rparr> (0::nat)
     = (Inr 2, 1)"
  using
    else_statement_optional [where wrap = "\<lambda>n s. (Inr (nid n), Suc s)" and s = "0::nat"
      and this = "\<lparr>compilerNode = \<lparr>expression = TsNode 1 Block [],
          thenStatement = TsNode 2 Block [], elseStatement = None\<rparr>\<rparr>"]
    else_statement_optional [where wrap = "\<lambda>n s. (Inr (nid n), Suc s)" and s = "0::nat"
      and this = "\<lparr>compilerNode = \<lparr>expression = TsNode 1 Block [],
          thenStatement = TsNode 2 Block [], elseStatement = Some (TsNode 3 Block [])\<rparr>\<rparr>"]
  by simp

text \<open>
  C10 (\<open>getVariableDeclarations\<close>). \<open>getVariableDeclarations\<close> is the concatenation, in
  order, of \<open>getDeclarations\<close> over the lists that \<open>getVariableDeclarationLists\<close> gives,
  and \<open>getVariableDeclarationLists\<close> is \<open>getDeclarationList\<close> mapped over the statements
  that \<open>getVariableStatements\<close> gives, the state handed on from call to call and the first
  error ending the whole. With getters that only read, it is the flattening
  \<open>concat (map getDeclarations (map getDeclarationList statements))\<close> over the direct
  variable statement children in the order \<open>getMainChildrenOfKind\<close> lists them.
\<close>

theorem variable_declarations_flatten:
  "getVariableDeclarations gmc gdl gds this s =
     (case getVariableDeclarationLists gmc gdl this s of
        (Inl e, s1) \<Rightarrow> (Inl e, s1)
      | (Inr declarationLists, s1) \<Rightarrow>
          (case arrayMap gds declarationLists s1 of
             (Inl e, s2) \<Rightarrow> (Inl e, s2)
           | (Inr dss, s2) \<Rightarrow> (Inr (concat dss), s2)))
   \<and> getVariableDeclarationLists gmc gdl this s =
     (case getVariableStatements gmc this s of
        (Inl e, s1) \<Rightarrow> (Inl e, s1)
      | (Inr stmts, s1) \<Rightarrow> arrayMap gdl stmts s1)
   \<and> (gmc this VariableStatement s = (Inr stmts, s)
        \<and> (\<forall>x t. gdl x t = (Inr (dl x), t)) \<and> (\<forall>l t. gds l t = (Inr (ds l), t))
      \<longrightarrow> getVariableDeclarationLists gmc gdl this s = (Inr (map dl stmts), s)
        \<and> getVariableDeclarations gmc gdl gds this s = (Inr (concat (map ds (map dl stmts))), s))"
proof (intro conjI impI)
  show "getVariableDeclarations gmc gdl gds this s =
     (case getVariableDeclarationLists gmc gdl this s of
        (Inl e, s1) \<Rightarrow> (Inl e, s1)
      | (Inr declarationLists, s1) \<Rightarrow>
          (case arrayMap gds declarationLists s1 of
             (Inl e, s2) \<Rightarrow> (Inl e, s2)
           | (Inr dss, s2) \<Rightarrow> (Inr (concat dss), s2)))"
    by (simp add: getVariableDeclarations_def pushDeclarations_concat
             split: prod.splits sum.splits)
  show "getVariableDeclarationLists gmc gdl this s =
     (case getVariableStatements gmc this s of
        (Inl e, s1) \<Rightarrow> (Inl e, s1)
      | (Inr stmts, s1) \<Rightarrow> arrayMap gdl stmts s1)"
    by (simp add: getVariableDeclarationLists_def)
next
  assume a: "gmc this VariableStatement s = (Inr stmts, s)
        \<and> (\<forall>x t. gdl x t = (Inr (dl x), t)) \<and> (\<forall>l t. gds l t = (Inr (ds l), t))"
  then have 1: "arrayMap gdl stmts s = (Inr (map dl stmts), s)"
    and 2: "arrayMap gds (map dl stmts) s = (Inr (map ds (map dl stmts)), s)"
    by (simp_all add: arrayMap_pure)
  from a 1 show dls: "getVariableDeclarationLists gmc gdl this s = (Inr (map dl stmts), s)"
    by (simp add: getVariableDeclarationLists_def getVariableStatements_def)
  from dls 2 show "getVariableDeclarations gmc gdl gds this s
      = (Inr (concat (map ds (map dl stmts))), s)"
    by (simp add: getVariableDeclarations_def pushDeclarations_concat)
qed

theorem variable_declarations_flatten_witness:
  "getVariableDeclarations
       (\<lambda>t k s. (Inr (if k = VariableStatement then [[[1, 2], [3]], [[4::nat]]] else []), s))
       (\<lambda>st s. (Inr (concat st), s)) (\<lambda>l s. (Inr l, s)) () ()
     = (Inr [1, 2, 3, 4], ())
   \<and> getVariableDeclarationLists
       (\<lambda>t k s. (Inr (if k = VariableStatement then [[[1, 2], [3]], [[4::nat]]] else []), s))
       (\<lambda>st s. (Inr (concat st), s)) () ()
     = (Inr [[1, 2, 3], [4]], ())"
proof -
  let ?gmc = "\<lambda>(t::unit) k (s::unit).
    (Inr (if k = VariableStatement then [[[1, 2], [3]], [[4::nat]]] else []) :: error + nat list list list, s)"
  let ?gdl = "\<lambda>(st::nat list list) (s::unit). (Inr (concat st) :: error + nat list, s)"
  let ?gds = "\<lambda>(l::nat list) (s::unit). (Inr l :: error + nat list, s)"
  have h: "?gmc () VariableStatement () = (Inr [[[1, 2], [3]], [[4::nat]]], ())
      \<and> (\<forall>x t. ?gdl x t = (Inr (concat x), t)) \<and> (\<forall>l t. ?gds l t = (Inr ((\<lambda>l. l) l), t))"
    by simp
  note inst = variable_declarations_flatten
    [where gmc = ?gmc and gdl = ?gdl and gds = ?gds and this = "()" and s = "()"
       and stmts = "[[[1, 2], [3]], [[4::nat]]]" and dl = concat and ds = "\<lambda>l. l",
     THEN conjunct2, THEN conjunct2, rule_format, OF h]
  from inst show ?thesis by simp
qed


end
